theory Spec2Isabelle
  imports Main
begin

section \<open>Characters\<close>

text \<open>
  The C code handles characters as \<open>int\<close>: a byte value in \<open>0..255\<close> or the
  end-of-input sentinel \<open>EOF\<close>. Source text and literals are byte strings.
\<close>

abbreviation EOF :: int where "EOF \<equiv> - 1"

abbreviation ord :: "char \<Rightarrow> int" where "ord c \<equiv> of_char c"

abbreviation NL :: int where "NL \<equiv> ord (CHR 0x0A)"
abbreviation CR :: int where "CR \<equiv> ord (CHR 0x0D)"
abbreviation BSLASH :: int where "BSLASH \<equiv> ord (CHR 0x5C)"
abbreviation SQUOTE :: int where "SQUOTE \<equiv> ord (CHR 0x27)"
abbreviation DQUOTE :: int where "DQUOTE \<equiv> ord (CHR 0x22)"

text \<open>
  Modelled from the spec: the character-class macros of \<open>utils.h\<close>, which is not among
  the sources. \<open>ISSPACE\<close>, \<open>ISDIGIT\<close>, \<open>ISALPHA\<close>, \<open>ISHEX\<close> and \<open>ISOCT\<close> are the
  C-locale classes of \<open>ctype.h\<close>; \<open>ISIDNUM\<close> is "alphanumeric or underscore" (the
  identifier scanner adds \<open>$\<close> and the bytes \<open>0x80..0xFD\<close> by itself); \<open>TODIGIT\<close> is
  the value of a digit in its base.
\<close>

definition ISSPACE :: "int \<Rightarrow> bool" where
  "ISSPACE ch \<longleftrightarrow> ch = 32 \<or> (9 \<le> ch \<and> ch \<le> 13)"

definition ISDIGIT :: "int \<Rightarrow> bool" where
  "ISDIGIT ch \<longleftrightarrow> ord CHR ''0'' \<le> ch \<and> ch \<le> ord CHR ''9''"

definition ISALPHA :: "int \<Rightarrow> bool" where
  "ISALPHA ch \<longleftrightarrow> (ord CHR ''a'' \<le> ch \<and> ch \<le> ord CHR ''z'') \<or> (ord CHR ''A'' \<le> ch \<and> ch \<le> ord CHR ''Z'')"

definition ISOCT :: "int \<Rightarrow> bool" where
  "ISOCT ch \<longleftrightarrow> ord CHR ''0'' \<le> ch \<and> ch \<le> ord CHR ''7''"

definition ISHEX :: "int \<Rightarrow> bool" where
  "ISHEX ch \<longleftrightarrow> ISDIGIT ch \<or> (ord CHR ''a'' \<le> ch \<and> ch \<le> ord CHR ''f'') \<or> (ord CHR ''A'' \<le> ch \<and> ch \<le> ord CHR ''F'')"

definition ISIDNUM :: "int \<Rightarrow> bool" where
  "ISIDNUM ch \<longleftrightarrow> ISALPHA ch \<or> ISDIGIT ch \<or> ch = ord CHR ''_''"

definition TODIGIT :: "int \<Rightarrow> int" where
  "TODIGIT ch =
     (if ISDIGIT ch then ch - ord CHR ''0''
      else if ord CHR ''a'' \<le> ch \<and> ch \<le> ord CHR ''f'' then ch - ord CHR ''a'' + 10
      else if ord CHR ''A'' \<le> ch \<and> ch \<le> ord CHR ''F'' then ch - ord CHR ''A'' + 10
      else 0)"

section \<open>Options and diagnostics\<close>

text \<open>The two options the reader consults through \<open>option_get\<close>.\<close>

record option_s =
  w_backslash_newline_space :: bool
  warn_no_newline_eof :: bool

text \<open>
  Modelled from the spec: the diagnostic sink (\<open>diagnostor.h\<close> and \<open>diag.h\<close> are not among
  the sources). It "formats and emits"; the model keeps what was emitted, in order: the
  severity, the message, and the line and column the diagnostic is bound to.
\<close>

abbreviation opt_off :: option_s where
  "opt_off \<equiv> \<lparr>w_backslash_newline_space = False, warn_no_newline_eof = False\<rparr>"

abbreviation opt_on :: option_s where
  "opt_on \<equiv> \<lparr>w_backslash_newline_space = True, warn_no_newline_eof = True\<rparr>"

datatype severity = Warning | Error

datatype diagnostic = Diagnostic severity string nat nat

section \<open>The stream of \<open>reader.c\<close>\<close>

text \<open>
  \<open>struct stream_s\<close>. The bytes between the start of the text and \<open>pe\<close> are \<open>buf\<close>, so
  \<open>pe\<close> is \<open>length buf\<close>; \<open>pc\<close> and \<open>line_note\<close> are offsets into the text. The text
  is a zero-terminated \<open>cstring_t\<close>: the byte at \<open>pe\<close> reads as 0. \<open>stashed\<close> holds the
  put-back bytes, the one pushed last first. The stream type and the three file times play
  no part in reading and are left out.
\<close>

record stream_s =
  fn :: string
  stashed :: "char list"
  line_note :: nat
  buf :: string
  pc :: nat
  line :: nat
  column :: nat
  lastch :: int

definition byte_at :: "string \<Rightarrow> nat \<Rightarrow> int" where
  "byte_at txt i = (if i < length txt then ord (txt ! i) else 0)"

text \<open>\<open>__stream_init__\<close> after the text has been loaded (a string, or the bytes of a file).\<close>

definition stream_init :: "string \<Rightarrow> string \<Rightarrow> stream_s" where
  "stream_init name txt =
     \<lparr>fn = name, stashed = [], line_note = 0, buf = txt, pc = 0,
      line = 1, column = 1, lastch = 0\<rparr>"

text \<open>The macro \<open>STREAM_STEP_BY_LINE\<close>.\<close>

definition STREAM_STEP_BY_LINE :: "stream_s \<Rightarrow> stream_s" where
  "STREAM_STEP_BY_LINE s = s\<lparr>line := line s + 1, column := 1, line_note := pc s\<rparr>"

text \<open>\<open>__stream_push__\<close>: the pushed \<open>int\<close> is stored as an \<open>unsigned char\<close>.\<close>

definition stream_push :: "stream_s \<Rightarrow> int \<Rightarrow> stream_s" where
  "stream_push s ch = s\<lparr>stashed := char_of ch # stashed s\<rparr>"

text \<open>\<open>__stream_pop__\<close>.\<close>

definition stream_pop :: "stream_s \<Rightarrow> int \<times> stream_s" where
  "stream_pop s =
     (case stashed s of
        [] \<Rightarrow> (EOF, s)
      | c # cs \<Rightarrow> (ord c, s\<lparr>stashed := cs\<rparr>))"

text \<open>
  The look-ahead loop of \<open>__stream_next__\<close> after a backslash: \<open>spc\<close> is \<open>stream->pc\<close>
  (just past the backslash), \<open>p\<close> the local \<open>pc\<close>. It either finds a line terminator,
  giving the offset just past it and whether \<open>pc > stream->pc + step\<close> held (white space
  between backslash and newline), or stops at \<open>p\<close>.
\<close>

datatype lookahead = Spliced nat | Unspliced nat

function backslash_next :: "string \<Rightarrow> nat \<Rightarrow> nat \<Rightarrow> lookahead \<times> bool" where
  "backslash_next txt spc p =
     (if p < length txt \<and> ISSPACE (byte_at txt p) then
        (if byte_at txt p = CR then
           (let (p1, step) = (if byte_at txt (p + 1) = NL then (p + 1, 1) else (p, 0))
            in (Spliced (p1 + 1), p1 > spc + step))
         else if byte_at txt p = NL then (Spliced (p + 1), p > spc + 0)
         else backslash_next txt spc (p + 1))
      else (Unspliced p, False))"
  by pat_completeness auto
termination
  by (relation "measure (\<lambda>(txt, spc, p). length txt - p)") auto

declare backslash_next.simps [simp del]

lemma backslash_next_advances:
  "backslash_next t spc p = (Spliced q, b) \<Longrightarrow> p < q"
proof (induction t spc p rule: backslash_next.induct)
  case (1 t spc p)
  then show ?case
    by (subst (asm) (2) backslash_next.simps) (auto split: if_splits)
qed

definition stream_done :: "int \<Rightarrow> stream_s \<Rightarrow> diagnostic list \<Rightarrow> int \<times> stream_s \<times> diagnostic list" where
  "stream_done ch s ws = (ch, s\<lparr>lastch := ch\<rparr>, ws)"

text \<open>
  \<open>__stream_next__\<close> from the label \<open>nextch\<close> on; \<open>ws\<close> collects the warnings emitted so
  far in this call.
\<close>

function stream_nextch :: "option_s \<Rightarrow> stream_s \<Rightarrow> diagnostic list \<Rightarrow> int \<times> stream_s \<times> diagnostic list" where
  "stream_nextch opt s ws =
     (if pc s \<ge> length (buf s) then
        stream_done (if lastch s = NL \<or> lastch s = EOF then EOF else NL) s ws
      else
        (let ch = byte_at (buf s) (pc s);
             s1 = s\<lparr>pc := pc s + 1\<rparr>
         in if ch = CR then
              (let s2 = (if byte_at (buf s1) (pc s1) = NL then s1\<lparr>pc := pc s1 + 1\<rparr> else s1)
               in stream_done NL (STREAM_STEP_BY_LINE s2) ws)
            else if ch = NL then stream_done ch (STREAM_STEP_BY_LINE s1) ws
            else if ch = BSLASH then
              (case backslash_next (buf s1) (pc s1) (pc s1) of
                 (Spliced q, spaced) \<Rightarrow>
                   stream_nextch opt (STREAM_STEP_BY_LINE (s1\<lparr>pc := q\<rparr>))
                     (if spaced \<and> w_backslash_newline_space opt
                      then ws @ [Diagnostic Warning ''backslash and newline separated by space''
                                   (line s1) (column s1)]
                      else ws)
               | (Unspliced q, _) \<Rightarrow>
                   if q = length (buf s1) then
                     stream_done NL (s1\<lparr>pc := q\<rparr>)
                       (if warn_no_newline_eof opt
                        then ws @ [Diagnostic Warning ''backslash-newline at end of file''
                                     (line s1) (column s1)]
                        else ws)
                   else stream_done ch s1 ws)
            else stream_done ch (s1\<lparr>column := column s1 + 1\<rparr>) ws))"
  by pat_completeness auto
termination
  by (relation "measure (\<lambda>(opt, s, ws). length (buf s) - pc s)")
     (auto simp: STREAM_STEP_BY_LINE_def dest!: backslash_next_advances [OF sym])

declare stream_nextch.simps [simp del]

text \<open>\<open>__stream_next__\<close>.\<close>

definition stream_next :: "option_s \<Rightarrow> stream_s \<Rightarrow> int \<times> stream_s \<times> diagnostic list" where
  "stream_next opt s =
     (case stream_pop s of
        (ch, s') \<Rightarrow> if ch \<noteq> EOF then stream_done ch s' [] else stream_nextch opt s' [])"

text \<open>The look-ahead loop of \<open>__stream_peek__\<close> after a backslash.\<close>

function backslash_peek :: "string \<Rightarrow> nat \<Rightarrow> lookahead" where
  "backslash_peek txt p =
     (if p < length txt \<and> ISSPACE (byte_at txt p) then
        (if byte_at txt p = CR then
           (let p1 = (if byte_at txt (p + 1) = NL then p + 1 else p)
            in Spliced (p1 + 1))
         else if byte_at txt p = NL then Spliced (p + 1)
         else backslash_peek txt (p + 1))
      else Unspliced p)"
  by pat_completeness auto
termination
  by (relation "measure (\<lambda>(txt, p). length txt - p)") auto

declare backslash_peek.simps [simp del]

lemma backslash_peek_advances:
  "backslash_peek t p = Spliced q \<Longrightarrow> p < q"
proof (induction t p rule: backslash_peek.induct)
  case (1 t p)
  then show ?case
    by (subst (asm) (2) backslash_peek.simps) (auto split: if_splits simp: Let_def)
qed

text \<open>\<open>__stream_peek__\<close> from the label \<open>nextch\<close> on, with its scratch pointer \<open>p\<close>.\<close>

function stream_peekch :: "stream_s \<Rightarrow> nat \<Rightarrow> int" where
  "stream_peekch s p =
     (if p \<ge> length (buf s) then
        (if lastch s = NL \<or> lastch s = EOF then EOF else NL)
      else
        (let ch = byte_at (buf s) p;
             p1 = p + 1
         in if ch = CR \<or> ch = NL then NL
            else if ch = BSLASH then
              (case backslash_peek (buf s) p1 of
                 Spliced q \<Rightarrow> stream_peekch s q
               | Unspliced q \<Rightarrow> if q = length (buf s) then NL else ch)
            else ch))"
  by pat_completeness auto
termination
  by (relation "measure (\<lambda>(s, p). length (buf s) - p)")
     (auto dest!: backslash_peek_advances)

declare stream_peekch.simps [simp del]

text \<open>
  \<open>__stream_peek__\<close>. The C function writes to no field of the stream; the state it
  leaves is returned with the character.
\<close>

definition stream_peek :: "stream_s \<Rightarrow> int \<times> stream_s" where
  "stream_peek s =
     (case stashed s of
        c # cs \<Rightarrow> (ord c, s)
      | [] \<Rightarrow> (stream_peekch s (pc s), s))"

section \<open>The reader of \<open>reader.c\<close>\<close>

text \<open>
  What goes wrong in the C code is a value of the model: a failed \<open>assert\<close> (they are
  compiled in: \<open>config.h\<close> defines \<open>DEBUG\<close> and nothing defines \<open>NDEBUG\<close>), the use of a
  null pointer, or a function that gives up and returns \<open>NULL\<close>.
\<close>

datatype error = AssertionFailed | NullPointer | ReturnedNull

text \<open>
  \<open>reader_t\<close>: the array \<open>streams\<close>, the stream pushed last first, so that \<open>reader->last\<close>
  is the head of the list and is \<open>NULL\<close> for the empty list. The interned-string pool
  only owns the names and texts and is left out.
\<close>

type_synonym reader_s = "stream_s list"

definition reader_create :: reader_s where
  "reader_create = []"

definition reader_is_empty :: "reader_s \<Rightarrow> bool" where
  "reader_is_empty r \<longleftrightarrow> length r = 0"

text \<open>\<open>reader_push\<close> of a string stream (\<open>STREAM_TYPE_STRING\<close>), which cannot fail.\<close>

definition reader_push :: "reader_s \<Rightarrow> string \<Rightarrow> reader_s" where
  "reader_push r s = stream_init ''<string>'' s # r"

definition reader_pop :: "reader_s \<Rightarrow> error + reader_s" where
  "reader_pop r = (case r of [] \<Rightarrow> Inl AssertionFailed | s # ss \<Rightarrow> Inr ss)"

definition reader_get :: "option_s \<Rightarrow> reader_s \<Rightarrow> int \<times> reader_s \<times> diagnostic list" where
  "reader_get opt r =
     (case r of
        s # ss \<Rightarrow> (case stream_next opt s of (ch, s', ws) \<Rightarrow> (ch, s' # ss, ws))
      | [] \<Rightarrow> (EOF, r, []))"

definition reader_peek :: "reader_s \<Rightarrow> int \<times> reader_s" where
  "reader_peek r =
     (case r of
        s # ss \<Rightarrow> (case stream_peek s of (ch, s') \<Rightarrow> (ch, s' # ss))
      | [] \<Rightarrow> (EOF, r))"

definition reader_unget :: "reader_s \<Rightarrow> int \<Rightarrow> error + reader_s" where
  "reader_unget r ch =
     (if \<not> (ch \<noteq> EOF \<and> ch \<noteq> 0) then Inl AssertionFailed
      else case r of
             [] \<Rightarrow> Inl NullPointer
           | s # ss \<Rightarrow> Inr (stream_push s ch # ss))"

definition reader_try :: "option_s \<Rightarrow> reader_s \<Rightarrow> int \<Rightarrow> bool \<times> reader_s \<times> diagnostic list" where
  "reader_try opt r ch =
     (case reader_peek r of
        (c, r1) \<Rightarrow>
          if c = ch then (case reader_get opt r1 of (_, r2, ws) \<Rightarrow> (True, r2, ws))
          else (False, r1, []))"

definition reader_test :: "reader_s \<Rightarrow> int \<Rightarrow> bool \<times> reader_s" where
  "reader_test r ch = (case reader_peek r of (c, r1) \<Rightarrow> (c = ch, r1))"

definition reader_linenote :: "reader_s \<Rightarrow> error + nat" where
  "reader_linenote r = (case r of [] \<Rightarrow> Inl AssertionFailed | s # ss \<Rightarrow> Inr (line_note s))"

definition reader_line :: "reader_s \<Rightarrow> error + nat" where
  "reader_line r = (case r of [] \<Rightarrow> Inl AssertionFailed | s # ss \<Rightarrow> Inr (line s))"

definition reader_column :: "reader_s \<Rightarrow> error + nat" where
  "reader_column r = (case r of [] \<Rightarrow> Inl AssertionFailed | s # ss \<Rightarrow> Inr (column s))"

definition reader_filename :: "reader_s \<Rightarrow> error + string" where
  "reader_filename r = (case r of [] \<Rightarrow> Inl AssertionFailed | s # ss \<Rightarrow> Inr (fn s))"

text \<open>The characters that \<open>n\<close> calls of \<open>reader_get\<close> in a row deliver.\<close>

primrec reader_gets :: "option_s \<Rightarrow> nat \<Rightarrow> reader_s \<Rightarrow> int list" where
  "reader_gets opt 0 r = []"
| "reader_gets opt (Suc n) r =
     (case reader_get opt r of (ch, r', ws) \<Rightarrow> ch # reader_gets opt n r')"

text \<open>\<open>n\<close> calls of \<open>reader_peek\<close> in a row: what they return and the state they leave.\<close>

primrec reader_peeks :: "nat \<Rightarrow> reader_s \<Rightarrow> int list \<times> reader_s" where
  "reader_peeks 0 r = ([], r)"
| "reader_peeks (Suc n) r =
     (case reader_peek r of
        (ch, r1) \<Rightarrow> (case reader_peeks n r1 of (chs, r2) \<Rightarrow> (ch # chs, r2)))"

section \<open>Tokens\<close>

text \<open>
  Modelled from the spec: the enumeration \<open>token_type_t\<close> of \<open>token.h\<close>, which is not
  among the sources; the kinds are those the spec lists, under the names \<open>lexer.c\<close> and the
  dictionary of \<open>token.c\<close> use.
\<close>

datatype (plugins only: ) token_type_t =
    TOKEN_UNKNOWN
  | TOKEN_L_SQUARE | TOKEN_R_SQUARE | TOKEN_L_PAREN | TOKEN_R_PAREN
  | TOKEN_L_BRACE | TOKEN_R_BRACE
  | TOKEN_PERIOD | TOKEN_ELLIPSIS
  | TOKEN_AMP | TOKEN_AMPAMP | TOKEN_AMPEQUAL
  | TOKEN_STAR | TOKEN_STAREQUAL
  | TOKEN_PLUS | TOKEN_PLUSPLUS | TOKEN_PLUSEQUAL
  | TOKEN_MINUS | TOKEN_MINUSMINUS | TOKEN_MINUSEQUAL | TOKEN_ARROW
  | TOKEN_TILDE
  | TOKEN_EXCLAIM | TOKEN_EXCLAIMEQUAL
  | TOKEN_SLASH | TOKEN_SLASHEQUAL
  | TOKEN_PERCENT | TOKEN_PERCENTEQUAL
  | TOKEN_LESS | TOKEN_LESSLESS | TOKEN_LESSLESSEQUAL | TOKEN_LESSEQUAL
  | TOKEN_GREATER | TOKEN_GREATERGREATER | TOKEN_GREATEREQUAL | TOKEN_GREATERGREATEREQUAL
  | TOKEN_CARET | TOKEN_CARETEQUAL
  | TOKEN_PIPE | TOKEN_PIPEPIPE | TOKEN_PIPEEQUAL
  | TOKEN_QUESTION | TOKEN_COLON | TOKEN_SEMI
  | TOKEN_EQUAL | TOKEN_EQUALEQUAL
  | TOKEN_COMMA
  | TOKEN_HASH | TOKEN_HASHHASH
  | TOKEN_BACKSLASH
  | TOKEN_NEW_LINE | TOKEN_SPACE | TOKEN_COMMENT
  | TOKEN_END
  | TOKEN_IDENTIFIER | TOKEN_NUMBER
  | TOKEN_CONSTANT_CHAR | TOKEN_CONSTANT_WCHAR | TOKEN_CONSTANT_CHAR16
  | TOKEN_CONSTANT_CHAR32 | TOKEN_CONSTANT_UTF8CHAR
  | TOKEN_CONSTANT_STRING | TOKEN_CONSTANT_WSTRING | TOKEN_CONSTANT_STRING16
  | TOKEN_CONSTANT_STRING32 | TOKEN_CONSTANT_UTF8STRING

text \<open>The table \<open>token_dictionary\<close> of \<open>token.c\<close>: kind, debug name, original spelling.\<close>

definition token_dictionary :: "(token_type_t \<times> string \<times> string) list" where
  "token_dictionary =
    [(TOKEN_L_SQUARE,            ''TOKEN_L_SQUARE'',            ''[''),
     (TOKEN_R_SQUARE,            ''TOKEN_R_SQUARE'',            '']''),
     (TOKEN_L_PAREN,             ''TOKEN_L_PAREN'',             '')''),
     (TOKEN_R_PAREN,             ''TOKEN_R_PAREN'',             ''(''),
     (TOKEN_L_BRACE,             ''TOKEN_L_BRACE'',             ''{''),
     (TOKEN_R_BRACE,             ''TOKEN_R_BRACE'',             ''}''),
     (TOKEN_PERIOD,              ''TOKEN_PERIOD'',              ''.''),
     (TOKEN_ELLIPSIS,            ''TOKEN_ELLIPSIS'',            ''...''),
     (TOKEN_AMP,                 ''TOKEN_AMP'',                 ''&''),
     (TOKEN_AMPAMP,              ''TOKEN_AMPAMP'',              ''&&''),
     (TOKEN_AMPEQUAL,            ''TOKEN_AMPEQUAL'',            ''&=''),
     (TOKEN_STAR,                ''TOKEN_STAR'',                ''*''),
     (TOKEN_STAREQUAL,           ''TOKEN_STAREQUAL'',           ''*=''),
     (TOKEN_PLUS,                ''TOKEN_PLUS'',                ''+''),
     (TOKEN_PLUSPLUS,            ''TOKEN_PLUSPLUS'',            ''++''),
     (TOKEN_PLUSEQUAL,           ''TOKEN_PLUSEQUAL'',           ''+=''),
     (TOKEN_MINUS,               ''TOKEN_MINUS'',               ''-''),
     (TOKEN_MINUSMINUS,          ''TOKEN_MINUSMINUS'',          ''--''),
     (TOKEN_MINUSEQUAL,          ''TOKEN_MINUSEQUAL'',          ''-=''),
     (TOKEN_ARROW,               ''TOKEN_ARROW'',               ''->''),
     (TOKEN_TILDE,               ''TOKEN_TILDE'',               ''~''),
     (TOKEN_EXCLAIM,             ''TOKEN_EXCLAIM'',             ''!''),
     (TOKEN_EXCLAIMEQUAL,        ''TOKEN_EXCLAIMEQUAL'',        ''!=''),
     (TOKEN_SLASH,               ''TOKEN_SLASH'',               ''/''),
     (TOKEN_SLASHEQUAL,          ''TOKEN_SLASHEQUAL'',          ''/=''),
     (TOKEN_PERCENT,             ''TOKEN_PERCENT'',             ''%''),
     (TOKEN_PERCENTEQUAL,        ''TOKEN_PERCENTEQUAL'',        ''%=''),
     (TOKEN_LESS,                ''TOKEN_LESS'',                ''<''),
     (TOKEN_LESSLESS,            ''TOKEN_LESSLESS'',            ''<<''),
     (TOKEN_LESSLESSEQUAL,       ''TOKEN_LESSLESSEQUAL'',       ''<<=''),
     (TOKEN_LESSEQUAL,           ''TOKEN_LESSEQUAL'',           ''<=''),
     (TOKEN_GREATER,             ''TOKEN_GREATER'',             ''>''),
     (TOKEN_GREATERGREATER,      ''TOKEN_GREATERGREATER'',      ''>>''),
     (TOKEN_GREATEREQUAL,        ''TOKEN_GREATEREQUAL'',        ''>=''),
     (TOKEN_GREATERGREATEREQUAL, ''TOKEN_GREATERGREATEREQUAL'', ''>>=''),
     (TOKEN_CARET,               ''TOKEN_CARET'',               ''^''),
     (TOKEN_CARETEQUAL,          ''TOKEN_CARETEQUAL'',          ''^=''),
     (TOKEN_PIPE,                ''TOKEN_PIPE'',                ''|''),
     (TOKEN_PIPEPIPE,            ''TOKEN_PIPEPIPE'',            ''||''),
     (TOKEN_PIPEEQUAL,           ''TOKEN_PIPEEQUAL'',           ''|=''),
     (TOKEN_QUESTION,            ''TOKEN_QUESTION'',            ''?''),
     (TOKEN_COLON,               ''TOKEN_COLON'',               '':''),
     (TOKEN_SEMI,                ''TOKEN_SEMI'',                '';''),
     (TOKEN_EQUAL,               ''TOKEN_EQUAL'',               ''=''),
     (TOKEN_EQUALEQUAL,          ''TOKEN_EQUALEQUAL'',          ''==''),
     (TOKEN_COMMA,               ''TOKEN_COMMA'',               '',''),
     (TOKEN_HASH,                ''TOKEN_HASH'',                ''#''),
     (TOKEN_HASHHASH,            ''TOKEN_HASHHASH'',            ''##''),
     (TOKEN_BACKSLASH,           ''TOKEN_BACKSLASH'',           [CHR 0x5C]),
     (TOKEN_NEW_LINE,            ''TOKEN_NEW_LINE'',            [CHR 0x5C, CHR ''n'']),
     (TOKEN_SPACE,               ''TOKEN_SPACE'',               ''spaces''),
     (TOKEN_COMMENT,             ''TOKEN_COMMENT'',             ''comment'')]"

text \<open>
  The loop of \<open>token_type2str\<close>: the first row of the dictionary with the given kind
  (\<open>NULL\<close> when there is none), of which \<open>sel\<close> picks a column.
\<close>

fun dictionary_lookup :: "(token_type_t \<times> string \<times> string) list \<Rightarrow> token_type_t \<Rightarrow> (token_type_t \<times> string \<times> string) option" where
  "dictionary_lookup [] t = None"
| "dictionary_lookup (row # rows) t = (if fst row = t then Some row else dictionary_lookup rows t)"

definition token_type2str :: "token_type_t \<Rightarrow> string option" where
  "token_type2str t = map_option (\<lambda>row. fst (snd row)) (dictionary_lookup token_dictionary t)"

text \<open>
  Modelled from the spec: \<open>original-spelling\<close>, the function that "maps a kind to the
  canonical source spelling"; its C function is not among the sources. It reads the third
  column of \<open>token_dictionary\<close> the way \<open>token_type2str\<close> reads the second.
\<close>

definition token_original :: "token_type_t \<Rightarrow> string option" where
  "token_original t = map_option (\<lambda>row. snd (snd row)) (dictionary_lookup token_dictionary t)"

text \<open>
  \<open>struct token_s\<close> with its \<open>source_location_s\<close> inlined. \<open>lexer.c\<close> calls the literal
  \<open>cs\<close> and the white-space count \<open>spaces\<close> (\<open>token.c\<close>: \<open>literals\<close>, \<open>leading_space\<close>).
  \<open>loc_row\<close> and \<open>loc_fn\<close> are pointers, \<open>None\<close> for \<open>NULL\<close>. The hide set is an opaque
  pointer that the lexer only copies; it is left out.
\<close>

record token_s =
  type :: token_type_t
  cs :: string
  loc_line :: nat
  loc_column :: nat
  loc_row :: "nat option"
  loc_fn :: "string option"
  begin_of_line :: bool
  spaces :: nat

text \<open>
  \<open>token_create\<close>. It sets the kind, an empty literal and a zeroed location; the two fields
  it does not set are taken as zero.
\<close>

definition token_create :: token_s where
  "token_create =
     \<lparr>type = TOKEN_UNKNOWN, cs = [], loc_line = 0, loc_column = 0, loc_row = None,
      loc_fn = None, begin_of_line = False, spaces = 0\<rparr>"

text \<open>\<open>token_init\<close>: kind, literal and location are reset, the other fields stay.\<close>

definition token_init :: "token_s \<Rightarrow> token_s" where
  "token_init t =
     t\<lparr>type := TOKEN_UNKNOWN, cs := [], loc_line := 0, loc_column := 0, loc_row := None,
       loc_fn := None\<rparr>"

text \<open>\<open>token_dup\<close>: a copy of every field (an empty literal is copied as \<open>NULL\<close>).\<close>

definition token_dup :: "token_s \<Rightarrow> token_s" where
  "token_dup t =
     \<lparr>type = type t, cs = (if length (cs t) \<noteq> 0 then cs t else []),
      loc_line = loc_line t, loc_column = loc_column t, loc_row = loc_row t,
      loc_fn = loc_fn t, begin_of_line = begin_of_line t, spaces = spaces t\<rparr>"

text \<open>
  Modelled from the spec: \<open>token_mark_loc\<close> and \<open>token_remark_loc\<close>, which are not among the
  sources: "mark sets all four at once; remark updates line/column/line-start while keeping
  the source name".
\<close>

definition token_mark_loc :: "token_s \<Rightarrow> nat \<Rightarrow> nat \<Rightarrow> nat \<Rightarrow> string \<Rightarrow> token_s" where
  "token_mark_loc t l c row name =
     t\<lparr>loc_line := l, loc_column := c, loc_row := Some row, loc_fn := Some name\<rparr>"

definition token_remark_loc :: "token_s \<Rightarrow> nat \<Rightarrow> nat \<Rightarrow> nat \<Rightarrow> token_s" where
  "token_remark_loc t l c row = t\<lparr>loc_line := l, loc_column := c, loc_row := Some row\<rparr>"


section \<open>The lexer of \<open>lexer.c\<close>\<close>

unbundle bit_operations_syntax

text \<open>
  Modelled from the spec: the enumeration \<open>encoding_type_t\<close> of \<open>encoding.h\<close>, which is not
  among the sources ("\<open>u\<close> \<rightarrow> CHAR16; \<open>u8\<close> \<rightarrow> UTF8; \<open>U\<close> \<rightarrow> CHAR32; \<open>L\<close> \<rightarrow> WCHAR; absent
  \<rightarrow> NONE").
\<close>

datatype encoding_type_t =
  ENCODING_NONE | ENCODING_CHAR16 | ENCODING_CHAR32 | ENCODING_UTF8 | ENCODING_WCHAR

text \<open>
  \<open>struct lexer_s\<close>, as \<open>lexer_create\<close> fills it. \<open>diag\<close> is the sink: the diagnostics
  emitted so far, the reader's warnings among them. \<open>snapshots\<close> is the stack of token
  stashes, the stash made last first; in a stash the token pushed last comes first. The
  wall-clock time \<open>tm\<close> is left out.
\<close>

record lexer_s =
  reader :: reader_s
  option :: option_s
  diag :: "diagnostic list"
  tok :: token_s
  snapshots :: "token_s list list"

definition lexer_create :: "reader_s \<Rightarrow> option_s \<Rightarrow> diagnostic list \<Rightarrow> lexer_s" where
  "lexer_create r opt d =
     \<lparr>reader = r, option = opt, diag = d, tok = token_create, snapshots = [[]]\<rparr>"

text \<open>
  What a lexer function does: it runs for ever (\<open>None\<close>), it fails, or it returns a value and
  leaves a lexer state.
\<close>

type_synonym 'a result = "(error + 'a \<times> lexer_s) option"

abbreviation returns :: "'a \<Rightarrow> lexer_s \<Rightarrow> 'a result" where
  "returns x lx \<equiv> Some (Inr (x, lx))"

abbreviation fails :: "error \<Rightarrow> 'a result" where
  "fails e \<equiv> Some (Inl e)"

definition bind_r :: "'a result \<Rightarrow> ('a \<Rightarrow> lexer_s \<Rightarrow> 'b result) \<Rightarrow> 'b result" where
  "bind_r m f =
     (case m of
        None \<Rightarrow> None
      | Some (Inl e) \<Rightarrow> Some (Inl e)
      | Some (Inr (x, lx)) \<Rightarrow> f x lx)"

lemma bind_r_simps [simp]:
  "bind_r None f = None"
  "bind_r (fails e) f = fails e"
  "bind_r (returns x lx) f = f x lx"
  by (simp_all add: bind_r_def)

lemma bind_r_mono [partial_function_mono]:
  assumes "mono_option B" and "\<And>y lx. mono_option (\<lambda>f. C y lx f)"
  shows "mono_option (\<lambda>f. bind_r (B f) (\<lambda>y lx. C y lx f))"
proof -
  have eq: "\<And>f. bind_r (B f) (\<lambda>y lx. C y lx f) =
      Option.bind (B f) (\<lambda>r. case r of Inl e \<Rightarrow> Some (Inl e) | Inr p \<Rightarrow> C (fst p) (snd p) f)"
    by (simp add: bind_r_def split: option.splits sum.splits prod.splits)
  have "\<And>r. mono_option (\<lambda>f. case r of Inl e \<Rightarrow> Some (Inl e) | Inr p \<Rightarrow> C (fst p) (snd p) f)"
  proof -
    fix r
    show "mono_option (\<lambda>f. case r of Inl e \<Rightarrow> Some (Inl e) | Inr p \<Rightarrow> C (fst p) (snd p) f)"
      by (cases r) (simp_all add: assms(2) option.const_mono)
  qed
  then show ?thesis
    unfolding eq by (intro bind_mono assms(1))
qed

text \<open>
  The calls \<open>reader_get(lexer->reader)\<close>, \<open>reader_peek\<close>, \<open>reader_try\<close>, \<open>reader_test\<close> and
  \<open>reader_unget\<close>: the reader inside the lexer changes, and what the reader warns about
  reaches the sink.
\<close>

definition rd_get :: "lexer_s \<Rightarrow> int \<times> lexer_s" where
  "rd_get lx =
     (case reader_get (option lx) (reader lx) of
        (ch, r, ws) \<Rightarrow> (ch, lx\<lparr>reader := r, diag := diag lx @ ws\<rparr>))"

definition rd_peek :: "lexer_s \<Rightarrow> int \<times> lexer_s" where
  "rd_peek lx = (case reader_peek (reader lx) of (ch, r) \<Rightarrow> (ch, lx\<lparr>reader := r\<rparr>))"

definition rd_try :: "lexer_s \<Rightarrow> int \<Rightarrow> bool \<times> lexer_s" where
  "rd_try lx ch =
     (case reader_try (option lx) (reader lx) ch of
        (b, r, ws) \<Rightarrow> (b, lx\<lparr>reader := r, diag := diag lx @ ws\<rparr>))"

definition rd_test :: "lexer_s \<Rightarrow> int \<Rightarrow> bool \<times> lexer_s" where
  "rd_test lx ch = (case reader_test (reader lx) ch of (b, r) \<Rightarrow> (b, lx\<lparr>reader := r\<rparr>))"

definition rd_unget :: "lexer_s \<Rightarrow> int \<Rightarrow> error + lexer_s" where
  "rd_unget lx ch =
     (case reader_unget (reader lx) ch of
        Inl e \<Rightarrow> Inl e
      | Inr r \<Rightarrow> Inr (lx\<lparr>reader := r\<rparr>))"

text \<open>
  The macros \<open>ERRORF\<close> and \<open>WARNINGF\<close>: a diagnostic bound to the location of the token in
  progress.
\<close>

definition ERRORF :: "lexer_s \<Rightarrow> string \<Rightarrow> lexer_s" where
  "ERRORF lx msg =
     lx\<lparr>diag := diag lx @ [Diagnostic Error msg (loc_line (tok lx)) (loc_column (tok lx))]\<rparr>"

definition WARNINGF :: "lexer_s \<Rightarrow> string \<Rightarrow> lexer_s" where
  "WARNINGF lx msg =
     lx\<lparr>diag := diag lx @ [Diagnostic Warning msg (loc_line (tok lx)) (loc_column (tok lx))]\<rparr>"

text \<open>\<open>__lexer_make_token__\<close>: the token handed out and the lexer with its token reset.\<close>

definition make_token :: "lexer_s \<Rightarrow> token_type_t \<Rightarrow> token_s \<times> lexer_s" where
  "make_token lx t =
     (let k = (tok lx)\<lparr>type := t\<rparr>
      in (token_dup k, lx\<lparr>tok := token_init k\<rparr>))"

abbreviation emit :: "lexer_s \<Rightarrow> token_type_t \<Rightarrow> token_s result" where
  "emit lx t \<equiv> Some (Inr (make_token lx t))"

text \<open>\<open>__lexer_mark_loc__\<close> and \<open>__lexer_remark_loc__\<close>; the reader's accessors assert a stream.\<close>

definition mark_loc :: "lexer_s \<Rightarrow> error + lexer_s" where
  "mark_loc lx =
     (case (reader_line (reader lx), reader_column (reader lx),
            reader_linenote (reader lx), reader_filename (reader lx)) of
        (Inr l, Inr c, Inr row, Inr name) \<Rightarrow> Inr (lx\<lparr>tok := token_mark_loc (tok lx) l c row name\<rparr>)
      | _ \<Rightarrow> Inl AssertionFailed)"

definition remark_loc :: "lexer_s \<Rightarrow> error + lexer_s" where
  "remark_loc lx =
     (case (reader_line (reader lx), reader_column (reader lx), reader_linenote (reader lx)) of
        (Inr l, Inr c, Inr row) \<Rightarrow> Inr (lx\<lparr>tok := token_remark_loc (tok lx) l c row\<rparr>)
      | _ \<Rightarrow> Inl AssertionFailed)"

text \<open>
  \<open>cstring_cat_ch\<close> on the literal of the token in progress: the \<open>int\<close> is stored as an
  \<open>unsigned char\<close>. Running out of memory is not modelled.
\<close>

definition cat_ch :: "lexer_s \<Rightarrow> int \<Rightarrow> lexer_s" where
  "cat_ch lx ch = lx\<lparr>tok := (tok lx)\<lparr>cs := cs (tok lx) @ [char_of ch]\<rparr>\<rparr>"

text \<open>
  \<open>cstring_append_utf8\<close> of \<open>encoding.c\<close>; \<open>rune\<close> is a \<open>uint32_t\<close>, \<open>None\<close> is \<open>NULL\<close>.
\<close>

definition write8 :: "string \<Rightarrow> int \<Rightarrow> string" where
  "write8 s u = s @ [char_of u]"

definition cstring_append_utf8 :: "string \<Rightarrow> int \<Rightarrow> string option" where
  "cstring_append_utf8 s rune =
     (if rune < 0x80 then Some (write8 s rune)
      else if rune < 0x800 then
        Some (write8 (write8 s (0xC0 OR drop_bit 6 rune)) (0x80 OR (rune AND 0x3F)))
      else if rune < 0x10000 then
        Some (write8 (write8 (write8 s (0xE0 OR drop_bit 12 rune))
                        (0x80 OR (drop_bit 6 rune AND 0x3F)))
                (0x80 OR (rune AND 0x3F)))
      else if rune < 0x200000 then
        Some (write8 (write8 (write8 (write8 s (0xF0 OR drop_bit 18 rune))
                                (0x80 OR (drop_bit 12 rune AND 0x3F)))
                        (0x80 OR (drop_bit 6 rune AND 0x3F)))
                (0x80 OR (rune AND 0x3F)))
      else None)"

text \<open>
  \<open>lexer->tok->cs = cstring_append_utf8(lexer->tok->cs, ch)\<close>, the \<open>int\<close> converted to
  \<open>uint32_t\<close>; on \<open>NULL\<close> the caller returns \<open>NULL\<close>.
\<close>

definition append_utf8 :: "lexer_s \<Rightarrow> int \<Rightarrow> (error + lexer_s)" where
  "append_utf8 lx ch =
     (case cstring_append_utf8 (cs (tok lx)) (take_bit 32 ch) of
        None \<Rightarrow> Inl ReturnedNull
      | Some s \<Rightarrow> Inr (lx\<lparr>tok := (tok lx)\<lparr>cs := s\<rparr>\<rparr>))"

text \<open>
  A C \<open>int\<close> after arithmetic: the value wrapped to 32 bits, two's complement (overflow of
  a signed \<open>int\<close> is undefined in C; the usual targets wrap).
\<close>

definition int32 :: "int \<Rightarrow> int" where
  "int32 x = signed_take_bit 31 x"

text \<open>\<open>__lexer_is_unc__\<close>; the second operand of \<open>&&\<close> is only evaluated after a backslash.\<close>

definition is_unc :: "lexer_s \<Rightarrow> int \<Rightarrow> bool \<times> lexer_s" where
  "is_unc lx ch =
     (if ch = BSLASH then
        (case rd_test lx (ord CHR ''u'') of
           (b, lx1) \<Rightarrow> if b then (True, lx1) else rd_test lx1 (ord CHR ''U''))
      else (False, lx))"

text \<open>\<open>__lexer_parse_hex_escaped__\<close> and its \<open>while\<close> loop.\<close>

partial_function (option) hex_escaped_loop :: "lexer_s \<Rightarrow> int \<Rightarrow> int \<Rightarrow> (int \<times> lexer_s) option" where
  "hex_escaped_loop lx hex ch =
     (if ISHEX ch then
        (case rd_get lx of
           (_, lx1) \<Rightarrow>
             (case rd_peek lx1 of
                (ch', lx2) \<Rightarrow> hex_escaped_loop lx2 (int32 (push_bit 4 hex + TODIGIT ch)) ch'))
      else Some (hex, lx))"

definition parse_hex_escaped :: "lexer_s \<Rightarrow> int result" where
  "parse_hex_escaped lx =
     (case rd_peek lx of
        (ch, lx1) \<Rightarrow>
          (case hex_escaped_loop
                  (if \<not> ISHEX ch
                   then ERRORF lx1 (CHR 0x5C # ''x used with no following hex digits'')
                   else lx1) 0 ch of
             None \<Rightarrow> None
           | Some r \<Rightarrow> Some (Inr r)))"

text \<open>\<open>__lexer_parse_oct_escaped__\<close>.\<close>

definition parse_oct_escaped :: "lexer_s \<Rightarrow> int \<Rightarrow> int \<times> lexer_s" where
  "parse_oct_escaped lx ch =
     (let oct = TODIGIT ch in
      case rd_peek lx of
        (ch1, lx1) \<Rightarrow>
          if \<not> ISOCT ch1 then (oct, lx1)
          else
            (let oct1 = int32 (push_bit 3 oct + TODIGIT ch1) in
             case rd_get lx1 of
               (_, lx2) \<Rightarrow>
                 (case rd_peek lx2 of
                    (ch2, lx3) \<Rightarrow>
                      if \<not> ISOCT ch2 then (oct1, lx3)
                      else
                        (let oct2 = int32 (push_bit 3 oct1 + TODIGIT ch2) in
                         case rd_get lx3 of (_, lx4) \<Rightarrow> (oct2, lx4)))))"

text \<open>
  \<open>__lexer_parse_unc__\<close>: \<open>len\<close> is 4 or 8 at both calls; \<open>u\<close> is an \<open>unsigned int\<close>. The
  loop runs \<open>len\<close> times.
\<close>

fun parse_unc_loop :: "nat \<Rightarrow> lexer_s \<Rightarrow> int \<Rightarrow> int \<times> lexer_s" where
  "parse_unc_loop 0 lx u = (u, lx)"
| "parse_unc_loop (Suc n) lx u =
     (case rd_get lx of
        (ch, lx1) \<Rightarrow>
          parse_unc_loop n
            (if \<not> ISHEX ch then ERRORF lx1 ''invalid universal character'' else lx1)
            (take_bit 32 (push_bit 4 u + TODIGIT ch)))"

definition parse_unc :: "lexer_s \<Rightarrow> nat \<Rightarrow> int result" where
  "parse_unc lx len =
     (if \<not> (len = 4 \<or> len = 8) then fails AssertionFailed
      else case remark_loc lx of
             Inl e \<Rightarrow> fails e
           | Inr lx1 \<Rightarrow>
               (case parse_unc_loop len lx1 0 of (u, lx2) \<Rightarrow> returns (int32 u) lx2))"

text \<open>\<open>__lexer_parse_escaped__\<close>.\<close>

definition parse_escaped :: "lexer_s \<Rightarrow> int result" where
  "parse_escaped lx =
     (case remark_loc lx of
        Inl e \<Rightarrow> fails e
      | Inr lx0 \<Rightarrow>
          (case rd_get lx0 of
             (ch, lx1) \<Rightarrow>
               if ch = SQUOTE \<or> ch = DQUOTE \<or> ch = ord CHR ''?'' \<or> ch = BSLASH then returns ch lx1
               else if ch = ord CHR ''a'' then returns 7 lx1
               else if ch = ord CHR ''b'' then returns 8 lx1
               else if ch = ord CHR ''f'' then returns 12 lx1
               else if ch = ord CHR ''n'' then returns 10 lx1
               else if ch = ord CHR ''r'' then returns 13 lx1
               else if ch = ord CHR ''t'' then returns 9 lx1
               else if ch = ord CHR ''v'' then returns 11 lx1
               else if ch = ord CHR ''e'' \<or> ch = ord CHR ''E'' then returns 27 lx1
               else if ch = ord CHR ''x'' then parse_hex_escaped lx1
               else if ch = ord CHR ''u'' then parse_unc lx1 4
               else if ch = ord CHR ''U'' then parse_unc lx1 8
               else if ord CHR ''0'' \<le> ch \<and> ch \<le> ord CHR ''7'' then
                 Some (Inr (parse_oct_escaped lx1 ch))
               else
                 returns ch
                   (WARNINGF lx1 (''unknown escape character: '' @ [CHR 0x27, char_of ch, CHR 0x27]))))"


text \<open>\<open>__lexer_parse_number__\<close>, its macro \<open>VALID_SIGN\<close> and its \<open>for\<close> loop.\<close>

definition VALID_SIGN :: "int \<Rightarrow> int \<Rightarrow> bool" where
  "VALID_SIGN c prevc \<longleftrightarrow>
     (c = ord CHR ''+'' \<or> c = ord CHR ''-'') \<and>
     (prevc = ord CHR ''e'' \<or> prevc = ord CHR ''E'' \<or> (prevc = ord CHR ''p'' \<or> prevc = ord CHR ''P''))"

partial_function (option) number_loop :: "lexer_s \<Rightarrow> int \<Rightarrow> lexer_s option" where
  "number_loop lx prev =
     (case rd_peek lx of
        (ch, lx1) \<Rightarrow>
          if \<not> (ISIDNUM ch \<or> ch = ord CHR ''.'' \<or> VALID_SIGN ch prev \<or> ch = SQUOTE) then Some lx1
          else (case rd_get (cat_ch lx1 ch) of (_, lx2) \<Rightarrow> number_loop lx2 ch))"

definition parse_number :: "lexer_s \<Rightarrow> int \<Rightarrow> token_s result" where
  "parse_number lx ch =
     (case number_loop (cat_ch lx ch) (- 1) of
        None \<Rightarrow> None
      | Some lx1 \<Rightarrow> emit lx1 TOKEN_NUMBER)"

text \<open>\<open>__lexer_parse_character__\<close>: the loop gives the character it stopped at and \<open>parsed\<close>.\<close>

partial_function (option) character_loop :: "lexer_s \<Rightarrow> bool \<Rightarrow> (int \<times> bool) result" where
  "character_loop lx parsed =
     (case rd_get lx of
        (ch, lx1) \<Rightarrow>
          if ch = SQUOTE \<or> ch = NL \<or> ch = EOF then returns (ch, parsed) lx1
          else if parsed then character_loop lx1 parsed
          else if ch = BSLASH then
            (case is_unc lx1 ch of
               (isunc, lx2) \<Rightarrow>
                 bind_r (parse_escaped lx2)
                   (\<lambda>ch' lx3.
                      if isunc then
                        (case append_utf8 lx3 ch' of
                           Inl e \<Rightarrow> fails e
                         | Inr lx4 \<Rightarrow> character_loop lx4 True)
                      else character_loop (cat_ch lx3 ch') True))
          else character_loop (cat_ch lx1 ch) True)"

definition parse_character :: "lexer_s \<Rightarrow> encoding_type_t \<Rightarrow> token_s result" where
  "parse_character lx ent =
     bind_r (character_loop lx False)
       (\<lambda>(ch, parsed) lx1.
          let lx2 = (if ch \<noteq> SQUOTE
                     then ERRORF lx1 (''missing terminating '' @ [CHR 0x27] @ '' character'')
                     else lx1);
              lx3 = (if parsed = False then ERRORF lx2 ''empty character constant'' else lx2)
          in emit lx3
               (if ent = ENCODING_CHAR16 then TOKEN_CONSTANT_CHAR16
                else if ent = ENCODING_CHAR32 then TOKEN_CONSTANT_CHAR32
                else if ent = ENCODING_UTF8 then TOKEN_CONSTANT_UTF8CHAR
                else if ent = ENCODING_WCHAR then TOKEN_CONSTANT_WCHAR
                else TOKEN_CONSTANT_CHAR))"

text \<open>\<open>__lexer_parse_string__\<close>.\<close>

partial_function (option) string_loop :: "lexer_s \<Rightarrow> int result" where
  "string_loop lx =
     (case rd_get lx of
        (ch, lx1) \<Rightarrow>
          if ch = DQUOTE \<or> ch = NL \<or> ch = EOF then returns ch lx1
          else if ch = BSLASH then
            (case is_unc lx1 ch of
               (isunc, lx2) \<Rightarrow>
                 bind_r (parse_escaped lx2)
                   (\<lambda>ch' lx3.
                      if isunc then
                        (case append_utf8 lx3 ch' of
                           Inl e \<Rightarrow> fails e
                         | Inr lx4 \<Rightarrow> string_loop lx4)
                      else string_loop (cat_ch lx3 ch')))
          else string_loop (cat_ch lx1 ch))"

definition parse_string :: "lexer_s \<Rightarrow> encoding_type_t \<Rightarrow> token_s result" where
  "parse_string lx ent =
     bind_r (string_loop lx)
       (\<lambda>ch lx1.
          let lx2 = (if ch \<noteq> DQUOTE then ERRORF lx1 ''unterminated string literal'' else lx1)
          in emit lx2
               (if ent = ENCODING_CHAR16 then TOKEN_CONSTANT_STRING16
                else if ent = ENCODING_CHAR32 then TOKEN_CONSTANT_STRING32
                else if ent = ENCODING_UTF8 then TOKEN_CONSTANT_UTF8STRING
                else if ent = ENCODING_WCHAR then TOKEN_CONSTANT_WSTRING
                else TOKEN_CONSTANT_STRING))"

text \<open>\<open>__lexer_parse_identifier__\<close>: the loop gives the character it stopped at.\<close>

partial_function (option) identifier_loop :: "lexer_s \<Rightarrow> int result" where
  "identifier_loop lx =
     (case rd_get lx of
        (ch, lx1) \<Rightarrow>
          if ISIDNUM ch \<or> ch = ord CHR ''$'' \<or> (0x80 \<le> ch \<and> ch \<le> 0xfd) then
            identifier_loop (cat_ch lx1 ch)
          else
            (case is_unc lx1 ch of
               (isunc, lx2) \<Rightarrow>
                 if isunc then
                   bind_r (parse_escaped lx2)
                     (\<lambda>u lx3.
                        case append_utf8 lx3 u of
                          Inl e \<Rightarrow> fails e
                        | Inr lx4 \<Rightarrow> identifier_loop lx4)
                 else returns ch lx2))"

definition parse_identifier :: "lexer_s \<Rightarrow> token_s result" where
  "parse_identifier lx =
     bind_r (identifier_loop lx)
       (\<lambda>ch lx1.
          case rd_unget lx1 ch of
            Inl e \<Rightarrow> fails e
          | Inr lx2 \<Rightarrow> emit lx2 TOKEN_IDENTIFIER)"

text \<open>\<open>__lexer_parse_encoding__\<close>.\<close>

definition parse_encoding :: "lexer_s \<Rightarrow> int \<Rightarrow> error + encoding_type_t \<times> lexer_s" where
  "parse_encoding lx ch =
     (if ch = ord CHR ''u'' then
        (case rd_try lx (ord CHR ''8'') of
           (b, lx1) \<Rightarrow> Inr (if b then ENCODING_UTF8 else ENCODING_CHAR16, lx1))
      else if ch = ord CHR ''U'' then Inr (ENCODING_CHAR32, lx)
      else if ch = ord CHR ''L'' then Inr (ENCODING_WCHAR, lx)
      else Inl AssertionFailed)"

text \<open>\<open>__lexer_skip_white_space__\<close>.\<close>

partial_function (option) white_space_loop :: "lexer_s \<Rightarrow> lexer_s option" where
  "white_space_loop lx =
     (case rd_peek lx of
        (ch, lx1) \<Rightarrow>
          if \<not> ISSPACE ch \<or> reader_is_empty (reader lx1) \<or> ch = NL then Some lx1
          else
            (case rd_get lx1 of
               (_, lx2) \<Rightarrow>
                 white_space_loop (lx2\<lparr>tok := (tok lx2)\<lparr>spaces := spaces (tok lx2) + 1\<rparr>\<rparr>)))"

definition skip_white_space :: "lexer_s \<Rightarrow> (bool \<times> lexer_s) option" where
  "skip_white_space lx =
     (case white_space_loop lx of
        None \<Rightarrow> None
      | Some lx1 \<Rightarrow> Some (spaces (tok lx1) > 0, lx1))"

text \<open>
  \<open>__lexer_skip_comment__\<close>: the two \<open>while (!reader_is_empty(lexer->reader))\<close> loops, and
  the \<open>assert(false)\<close> that control reaches when the first loop ends or neither branch is
  taken.
\<close>

partial_function (option) line_comment_loop :: "lexer_s \<Rightarrow> unit result" where
  "line_comment_loop lx =
     (if \<not> reader_is_empty (reader lx) then
        (case rd_peek lx of
           (ch, lx1) \<Rightarrow>
             if ch = NL then returns () lx1
             else (case rd_get lx1 of (_, lx2) \<Rightarrow> line_comment_loop lx2))
      else fails AssertionFailed)"

partial_function (option) block_comment_loop :: "lexer_s \<Rightarrow> unit result" where
  "block_comment_loop lx =
     (if \<not> reader_is_empty (reader lx) then
        (case rd_get lx of
           (ch, lx1) \<Rightarrow>
             if ch = ord CHR ''*'' then
               (case rd_try lx1 (ord CHR ''/'') of
                  (b, lx2) \<Rightarrow> if b then returns () lx2 else block_comment_loop lx2)
             else block_comment_loop lx1)
      else returns () (ERRORF lx ''unknown identifier''))"

definition skip_comment :: "lexer_s \<Rightarrow> unit result" where
  "skip_comment lx =
     (case rd_try lx (ord CHR ''/'') of
        (b, lx1) \<Rightarrow>
          if b then line_comment_loop lx1
          else
            (case rd_try lx1 (ord CHR ''*'') of
               (b', lx2) \<Rightarrow>
                 if b' then block_comment_loop lx2
                 else fails AssertionFailed))"


text \<open>
  The idioms \<open>if (reader_try(lexer->reader, ch)) A; else B\<close> and
  \<open>reader_unget(lexer->reader, ch); A\<close> of \<open>lexer_scan\<close>.
\<close>

definition if_try :: "lexer_s \<Rightarrow> int \<Rightarrow> (lexer_s \<Rightarrow> 'a) \<Rightarrow> (lexer_s \<Rightarrow> 'a) \<Rightarrow> 'a" where
  "if_try lx ch A B = (case rd_try lx ch of (b, lx1) \<Rightarrow> if b then A lx1 else B lx1)"

definition unget_then :: "lexer_s \<Rightarrow> int \<Rightarrow> (lexer_s \<Rightarrow> 'a result) \<Rightarrow> 'a result" where
  "unget_then lx ch A = (case rd_unget lx ch of Inl e \<Rightarrow> fails e | Inr lx1 \<Rightarrow> A lx1)"

text \<open>\<open>lexer_scan\<close>. The cases are in the order of the \<open>switch\<close>.\<close>

definition lexer_scan :: "lexer_s \<Rightarrow> token_s result" where
  "lexer_scan lx =
     (case mark_loc lx of
        Inl e \<Rightarrow> fails e
      | Inr lx0 \<Rightarrow>
     (case skip_white_space lx0 of
        None \<Rightarrow> None
      | Some (sp, lx1) \<Rightarrow>
     if sp then emit lx1 TOKEN_SPACE
     else
     (case rd_get lx1 of
        (ch, l) \<Rightarrow>
     if ch = NL then emit l TOKEN_NEW_LINE
     else if ch = ord CHR ''['' then emit l TOKEN_L_SQUARE
     else if ch = ord CHR '']'' then emit l TOKEN_R_SQUARE
     else if ch = ord CHR ''('' then emit l TOKEN_L_PAREN
     else if ch = ord CHR '')'' then emit l TOKEN_R_PAREN
     else if ch = ord CHR ''{'' then emit l TOKEN_L_BRACE
     else if ch = ord CHR ''}'' then emit l TOKEN_R_BRACE
     else if ch = ord CHR ''.'' then
       (case rd_peek l of
          (c, l1) \<Rightarrow>
            if ISDIGIT c then parse_number l1 ch
            else
              if_try l1 (ord CHR ''.'')
                (\<lambda>l2. if_try l2 (ord CHR ''.'')
                         (\<lambda>l3. emit l3 TOKEN_ELLIPSIS)
                         (\<lambda>l3. unget_then l3 (ord CHR ''.'') (\<lambda>l4. emit l4 TOKEN_PERIOD)))
                (\<lambda>l2. emit l2 TOKEN_PERIOD))
     else if ch = ord CHR ''&'' then
       if_try l (ord CHR ''&'') (\<lambda>l1. emit l1 TOKEN_AMPAMP)
         (\<lambda>l1. if_try l1 (ord CHR ''='') (\<lambda>l2. emit l2 TOKEN_AMPEQUAL)
                  (\<lambda>l2. emit l2 TOKEN_AMP))
     else if ch = ord CHR ''*'' then
       if_try l (ord CHR ''='') (\<lambda>l1. emit l1 TOKEN_STAREQUAL) (\<lambda>l1. emit l1 TOKEN_STAR)
     else if ch = ord CHR ''+'' then
       if_try l (ord CHR ''+'') (\<lambda>l1. emit l1 TOKEN_PLUSPLUS)
         (\<lambda>l1. if_try l1 (ord CHR ''='') (\<lambda>l2. emit l2 TOKEN_PLUSEQUAL)
                  (\<lambda>l2. emit l2 TOKEN_PLUS))
     else if ch = ord CHR ''-'' then
       if_try l (ord CHR ''>'') (\<lambda>l1. emit l1 TOKEN_ARROW)
         (\<lambda>l1. if_try l1 (ord CHR ''-'') (\<lambda>l2. emit l2 TOKEN_MINUSMINUS)
                  (\<lambda>l2. if_try l2 (ord CHR ''='') (\<lambda>l3. emit l3 TOKEN_MINUSEQUAL)
                           (\<lambda>l3. emit l3 TOKEN_MINUS)))
     else if ch = ord CHR ''~'' then emit l TOKEN_TILDE
     else if ch = ord CHR ''!'' then
       if_try l (ord CHR ''='') (\<lambda>l1. emit l1 TOKEN_EXCLAIM) (\<lambda>l1. emit l1 TOKEN_EXCLAIMEQUAL)
     else if ch = ord CHR ''/'' then
       (case rd_test l (ord CHR ''/'') of
          (b1, l1) \<Rightarrow>
            (case (if b1 then (True, l1) else rd_test l1 (ord CHR ''*'')) of
               (b2, l2) \<Rightarrow>
                 if b2 then bind_r (skip_comment l2) (\<lambda>_ l3. emit l3 TOKEN_COMMENT)
                 else if_try l2 (ord CHR ''='') (\<lambda>l3. emit l3 TOKEN_SLASHEQUAL)
                        (\<lambda>l3. emit l3 TOKEN_SLASH)))
     else if ch = ord CHR ''%'' then
       if_try l (ord CHR ''='') (\<lambda>l1. emit l1 TOKEN_PERCENTEQUAL)
         (\<lambda>l1. if_try l1 (ord CHR ''>'') (\<lambda>l2. emit l2 TOKEN_R_BRACE)
                  (\<lambda>l2. if_try l2 (ord CHR '':'')
                           (\<lambda>l3. if_try l3 (ord CHR ''%'')
                                    (\<lambda>l4. if_try l4 (ord CHR '':'')
                                             (\<lambda>l5. emit l5 TOKEN_HASHHASH)
                                             (\<lambda>l5. unget_then l5 (ord CHR ''%'')
                                                      (\<lambda>l6. emit l6 TOKEN_HASH)))
                                    (\<lambda>l4. emit l4 TOKEN_HASH))
                           (\<lambda>l3. emit l3 TOKEN_PERCENT)))
     else if ch = ord CHR ''<'' then
       if_try l (ord CHR ''<'')
         (\<lambda>l1. if_try l1 (ord CHR ''='') (\<lambda>l2. emit l2 TOKEN_LESSLESSEQUAL)
                  (\<lambda>l2. emit l2 TOKEN_LESSLESS))
         (\<lambda>l1. if_try l1 (ord CHR ''='') (\<lambda>l2. emit l2 TOKEN_LESSEQUAL)
                  (\<lambda>l2. if_try l2 (ord CHR '':'') (\<lambda>l3. emit l3 TOKEN_L_SQUARE)
                           (\<lambda>l3. if_try l3 (ord CHR ''%'') (\<lambda>l4. emit l4 TOKEN_L_BRACE)
                                    (\<lambda>l4. emit l4 TOKEN_LESS))))
     else if ch = ord CHR ''>'' then
       if_try l (ord CHR ''>'')
         (\<lambda>l1. if_try l1 (ord CHR ''='') (\<lambda>l2. emit l2 TOKEN_GREATERGREATEREQUAL)
                  (\<lambda>l2. emit l2 TOKEN_GREATERGREATER))
         (\<lambda>l1. if_try l1 (ord CHR ''='') (\<lambda>l2. emit l2 TOKEN_GREATEREQUAL)
                  (\<lambda>l2. emit l2 TOKEN_GREATER))
     else if ch = ord CHR ''^'' then
       if_try l (ord CHR ''='') (\<lambda>l1. emit l1 TOKEN_CARETEQUAL) (\<lambda>l1. emit l1 TOKEN_CARET)
     else if ch = ord CHR ''|'' then
       if_try l (ord CHR ''|'') (\<lambda>l1. emit l1 TOKEN_PIPEPIPE)
         (\<lambda>l1. if_try l1 (ord CHR ''='') (\<lambda>l2. emit l2 TOKEN_PIPEEQUAL)
                  (\<lambda>l2. emit l2 TOKEN_PIPE))
     else if ch = ord CHR ''?'' then emit l TOKEN_QUESTION
     else if ch = ord CHR '':'' then
       if_try l (ord CHR ''>'') (\<lambda>l1. emit l1 TOKEN_R_SQUARE) (\<lambda>l1. emit l1 TOKEN_COLON)
     else if ch = ord CHR '';'' then emit l TOKEN_SEMI
     else if ch = ord CHR ''='' then
       if_try l (ord CHR ''='') (\<lambda>l1. emit l1 TOKEN_EQUALEQUAL) (\<lambda>l1. emit l1 TOKEN_EQUAL)
     else if ch = ord CHR '','' then emit l TOKEN_COMMA
     else if ch = ord CHR ''#'' then
       if_try l (ord CHR ''#'') (\<lambda>l1. emit l1 TOKEN_HASHHASH) (\<lambda>l1. emit l1 TOKEN_HASH)
     else if ord CHR ''0'' \<le> ch \<and> ch \<le> ord CHR ''9'' then parse_number l ch
     else if ch = ord CHR ''u'' \<or> ch = ord CHR ''U'' \<or> ch = ord CHR ''L'' then
       (case parse_encoding l ch of
          Inl e \<Rightarrow> fails e
        | Inr (ent, l1) \<Rightarrow>
            if_try l1 DQUOTE (\<lambda>l2. parse_string l2 ent)
              (\<lambda>l2. if_try l2 SQUOTE (\<lambda>l3. parse_character l3 ent)
                       (\<lambda>l3. unget_then l3 ch parse_identifier)))
     else if ch = SQUOTE then parse_character l ENCODING_NONE
     else if ch = DQUOTE then parse_string l ENCODING_NONE
     else if ch = BSLASH then
       (case rd_test l (ord CHR ''u'') of
          (b1, l1) \<Rightarrow>
            (case (if b1 then (True, l1) else rd_test l1 (ord CHR ''U'')) of
               (b2, l2) \<Rightarrow>
                 if b2 then parse_identifier l2 else emit l2 TOKEN_BACKSLASH))
     else if ch = EOF then emit l TOKEN_END
     else if ISALPHA ch \<or> (0x80 \<le> ch \<and> ch \<le> 0xfd) \<or> ch = ord CHR ''_'' \<or> ch = ord CHR ''$''
       then unget_then l ch parse_identifier
     else fails AssertionFailed)))"

text \<open>
  \<open>lexer_next\<close>. Its \<open>while\<close> loop scans again as long as the token is a space or a
  comment and counts the rounds. A \<open>NULL\<close> from \<open>lexer_scan\<close> is dereferenced at once.
\<close>

definition null_deref :: "'a result \<Rightarrow> 'a result" where
  "null_deref m = (case m of Some (Inl ReturnedNull) \<Rightarrow> fails NullPointer | _ \<Rightarrow> m)"

partial_function (option) next_loop :: "lexer_s \<Rightarrow> token_s \<Rightarrow> nat \<Rightarrow> (token_s \<times> nat) result" where
  "next_loop lx t leading_space =
     (if type t = TOKEN_SPACE \<or> type t = TOKEN_COMMENT then
        (case null_deref (lexer_scan lx) of
           None \<Rightarrow> None
         | Some (Inl e) \<Rightarrow> fails e
         | Some (Inr (t', lx1)) \<Rightarrow> next_loop lx1 t' (leading_space + 1))
      else returns (t, leading_space) lx)"

definition lexer_next :: "lexer_s \<Rightarrow> token_s result" where
  "lexer_next lx =
     (case snapshots lx of
        [] \<Rightarrow> fails AssertionFailed
      | tokens # rest \<Rightarrow>
          (case tokens of
             t # ts \<Rightarrow> returns t (lx\<lparr>snapshots := ts # rest\<rparr>)
           | [] \<Rightarrow>
               (case reader_line (reader lx) of
                  Inl e \<Rightarrow> fails e
                | Inr l \<Rightarrow>
                    (let begin_of_line' = (if l = 1 then True else False) in
                     bind_r (null_deref (lexer_scan lx))
                       (\<lambda>t lx1.
                          bind_r (next_loop lx1 t 0)
                            (\<lambda>(t', leading_space) lx2.
                               returns (t'\<lparr>begin_of_line := begin_of_line',
                                           spaces := leading_space\<rparr>) lx2))))))"

text \<open>\<open>lexer_untread\<close>, \<open>lexer_peek\<close>, \<open>lexer_stash\<close> and \<open>lexer_unstash\<close>.\<close>

definition lexer_untread :: "lexer_s \<Rightarrow> token_s \<Rightarrow> error + lexer_s" where
  "lexer_untread lx t =
     (if type t = TOKEN_END then Inl AssertionFailed
      else case snapshots lx of
             [] \<Rightarrow> Inl AssertionFailed
           | tokens # rest \<Rightarrow> Inr (lx\<lparr>snapshots := (t # tokens) # rest\<rparr>))"

definition lexer_peek :: "lexer_s \<Rightarrow> token_s result" where
  "lexer_peek lx =
     bind_r (lexer_next lx)
       (\<lambda>t lx1.
          if type t \<noteq> TOKEN_END then
            (case lexer_untread lx1 t of Inl e \<Rightarrow> fails e | Inr lx2 \<Rightarrow> returns t lx2)
          else returns t lx1)"

definition lexer_stash :: "lexer_s \<Rightarrow> lexer_s" where
  "lexer_stash lx = lx\<lparr>snapshots := [] # snapshots lx\<rparr>"

definition lexer_unstash :: "lexer_s \<Rightarrow> error + lexer_s" where
  "lexer_unstash lx =
     (case snapshots lx of
        [] \<Rightarrow> Inl AssertionFailed
      | tokens # rest \<Rightarrow> Inr (lx\<lparr>snapshots := rest\<rparr>))"


section \<open>Running the lexer\<close>

text \<open>
  A lexer created over a fresh reader onto which one string stream has been pushed.
\<close>

definition lexer_on :: "option_s \<Rightarrow> string \<Rightarrow> lexer_s" where
  "lexer_on opt s = lexer_create (reader_push reader_create s) opt []"

text \<open>\<open>n\<close> calls of \<open>lexer_scan\<close> in a row, and the tokens they return in order.\<close>

primrec scans :: "nat \<Rightarrow> lexer_s \<Rightarrow> token_s list result" where
  "scans 0 lx = returns [] lx"
| "scans (Suc n) lx =
     bind_r (lexer_scan lx)
       (\<lambda>t lx1. bind_r (scans n lx1) (\<lambda>ts lx2. returns (t # ts) lx2))"

text \<open>The kind and literal of each token of a run, and the diagnostics in the sink after it.\<close>

definition kinds_and_literals :: "token_s list result \<Rightarrow> (token_type_t \<times> string) list option" where
  "kinds_and_literals m =
     (case m of
        Some (Inr (ts, lx)) \<Rightarrow> Some (map (\<lambda>t. (type t, cs t)) ts)
      | _ \<Rightarrow> None)"

definition emitted :: "'a result \<Rightarrow> diagnostic list option" where
  "emitted m = (case m of Some (Inr (x, lx)) \<Rightarrow> Some (diag lx) | _ \<Rightarrow> None)"

text \<open>The reader after \<open>n\<close> calls of \<open>reader_get\<close> in a row.\<close>

primrec reader_skip :: "option_s \<Rightarrow> nat \<Rightarrow> reader_s \<Rightarrow> reader_s" where
  "reader_skip opt 0 r = r"
| "reader_skip opt (Suc n) r = reader_skip opt n (fst (snd (reader_get opt r)))"

text \<open>
  The pp-number of the spec, without the characters \<open>__lexer_parse_number__\<close> has no case
  for: after the first character a pp-number goes on with a letter, a digit, an underscore,
  a period, a single quote, or a sign right after \<open>e\<close>, \<open>E\<close>, \<open>p\<close> or \<open>P\<close>. \<open>pp_accepted prev chs\<close>
  holds when every character of \<open>chs\<close> goes on the pp-number, \<open>prev\<close> being the character
  before \<open>chs\<close>.
\<close>

definition pp_continue :: "int \<Rightarrow> int \<Rightarrow> bool" where
  "pp_continue prev ch \<longleftrightarrow>
     ISALPHA ch \<or> ISDIGIT ch \<or> ch = ord CHR ''_'' \<or> ch = ord CHR ''.'' \<or> ch = SQUOTE \<or>
     ((ch = ord CHR ''+'' \<or> ch = ord CHR ''-'') \<and>
      (prev = ord CHR ''e'' \<or> prev = ord CHR ''E'' \<or> prev = ord CHR ''p'' \<or> prev = ord CHR ''P''))"

fun pp_accepted :: "int \<Rightarrow> int list \<Rightarrow> bool" where
  "pp_accepted prev [] = True"
| "pp_accepted prev (c # rest) = (pp_continue prev c \<and> pp_accepted c rest)"

text \<open>
  The bytes the top stream of a reader still holds: those put back and those not yet read.
\<close>

definition remaining :: "reader_s \<Rightarrow> nat" where
  "remaining r = (case r of [] \<Rightarrow> 0 | s # ss \<Rightarrow> length (stashed s) + (length (buf s) - pc s))"


section \<open>Properties of the stream\<close>


lemma ord_range [simp]: "0 \<le> ord c" "ord c < 256" "ord c \<noteq> - 1"
proof -
  have "ord c = int (of_char c)" by (simp only: of_nat_of_char)
  then show a: "0 \<le> ord c" by (metis of_nat_0_le_iff)
  have "ord c mod 256 = ord c" by (rule of_char_mod_256)
  then show "ord c < 256" by (metis pos_mod_bound zero_less_numeral)
  from a show "ord c \<noteq> - 1" by linarith
qed

lemma backslash_agree: "fst (backslash_next t spc p) = backslash_peek t p"
proof (induction t spc p rule: backslash_next.induct)
  case (1 t spc p)
  show ?case
    using 1
    by (subst backslash_next.simps, subst backslash_peek.simps) (simp add: Let_def)
qed

lemma stream_nextch_end:
  "length (buf s) \<le> pc s \<Longrightarrow>
   stream_nextch opt s ws =
     stream_done (if lastch s = NL \<or> lastch s = EOF then EOF else NL) s ws"
  by (subst stream_nextch.simps) simp

lemma stream_nextch_cr:
  "pc s < length (buf s) \<Longrightarrow> byte_at (buf s) (pc s) = CR \<Longrightarrow>
   stream_nextch opt s ws =
     stream_done NL
       (s\<lparr>pc := (if byte_at (buf s) (pc s + 1) = NL then pc s + 2 else pc s + 1),
          line := line s + 1, column := 1,
          line_note := (if byte_at (buf s) (pc s + 1) = NL then pc s + 2 else pc s + 1)\<rparr>) ws"
  by (subst stream_nextch.simps) (simp add: Let_def STREAM_STEP_BY_LINE_def)

lemma stream_nextch_nl:
  "pc s < length (buf s) \<Longrightarrow> byte_at (buf s) (pc s) = NL \<Longrightarrow>
   stream_nextch opt s ws =
     stream_done NL (s\<lparr>pc := pc s + 1, line := line s + 1, column := 1, line_note := pc s + 1\<rparr>) ws"
  by (subst stream_nextch.simps) (simp add: Let_def STREAM_STEP_BY_LINE_def)

lemma stream_nextch_plain:
  "pc s < length (buf s) \<Longrightarrow> byte_at (buf s) (pc s) \<noteq> CR \<Longrightarrow>
   byte_at (buf s) (pc s) \<noteq> NL \<Longrightarrow> byte_at (buf s) (pc s) \<noteq> BSLASH \<Longrightarrow>
   stream_nextch opt s ws =
     stream_done (byte_at (buf s) (pc s)) (s\<lparr>pc := pc s + 1, column := column s + 1\<rparr>) ws"
  by (subst stream_nextch.simps) (simp add: Let_def)

lemma stream_nextch_splice:
  "pc s < length (buf s) \<Longrightarrow> byte_at (buf s) (pc s) = BSLASH \<Longrightarrow>
   backslash_next (buf s) (pc s + 1) (pc s + 1) = (Spliced q, spaced) \<Longrightarrow>
   stream_nextch opt s ws =
     stream_nextch opt (s\<lparr>pc := q, line := line s + 1, column := 1, line_note := q\<rparr>)
       (if spaced \<and> w_backslash_newline_space opt
        then ws @ [Diagnostic Warning ''backslash and newline separated by space''
                     (line s) (column s)]
        else ws)"
  by (subst stream_nextch.simps) (simp add: Let_def STREAM_STEP_BY_LINE_def)

lemma stream_nextch_unspliced:
  "pc s < length (buf s) \<Longrightarrow> byte_at (buf s) (pc s) = BSLASH \<Longrightarrow>
   backslash_next (buf s) (pc s + 1) (pc s + 1) = (Unspliced q, spaced) \<Longrightarrow>
   stream_nextch opt s ws =
     (if q = length (buf s) then
        stream_done NL (s\<lparr>pc := q\<rparr>)
          (if warn_no_newline_eof opt
           then ws @ [Diagnostic Warning ''backslash-newline at end of file'' (line s) (column s)]
           else ws)
      else stream_done BSLASH (s\<lparr>pc := pc s + 1\<rparr>) ws)"
  by (subst stream_nextch.simps) (simp add: Let_def)

lemma nextch_peekch_gen:
  "buf s0 = buf s \<Longrightarrow> lastch s0 = lastch s \<Longrightarrow>
   fst (stream_nextch opt s ws) = stream_peekch s0 (pc s)"
proof (induction "length (buf s) - pc s" arbitrary: s ws rule: less_induct)
  case less
  note eq = less.prems
  show ?case
  proof (cases "length (buf s) \<le> pc s")
    case True
    then show ?thesis
      using eq by (subst stream_peekch.simps) (simp add: stream_nextch_end stream_done_def)
  next
    case False
    then have inb: "pc s < length (buf s)" by simp
    consider (cr) "byte_at (buf s) (pc s) = CR" | (nl) "byte_at (buf s) (pc s) = NL"
      | (bs) "byte_at (buf s) (pc s) = BSLASH"
      | (plain) "byte_at (buf s) (pc s) \<noteq> CR" "byte_at (buf s) (pc s) \<noteq> NL"
                "byte_at (buf s) (pc s) \<noteq> BSLASH"
      by blast
    then show ?thesis
    proof cases
      case cr
      then show ?thesis using eq inb
        by (subst stream_peekch.simps) (simp add: stream_nextch_cr stream_done_def)
    next
      case nl
      then show ?thesis using eq inb
        by (subst stream_peekch.simps) (simp add: stream_nextch_nl stream_done_def)
    next
      case plain
      then show ?thesis using eq inb
        by (subst stream_peekch.simps) (simp add: stream_nextch_plain stream_done_def)
    next
      case bs
      obtain la spaced where la: "backslash_next (buf s) (pc s + 1) (pc s + 1) = (la, spaced)"
        by (cases "backslash_next (buf s) (pc s + 1) (pc s + 1)")
      then have pk: "backslash_peek (buf s) (pc s + 1) = la"
        using backslash_agree [of "buf s" "pc s + 1" "pc s + 1"] by simp
      show ?thesis
      proof (cases la)
        case (Unspliced q)
        then show ?thesis
          using eq inb bs la pk
          by (subst stream_peekch.simps)
             (simp add: stream_nextch_unspliced [OF inb bs la [unfolded Unspliced]] stream_done_def)
      next
        case (Spliced q)
        let ?s = "s\<lparr>pc := q, line := line s + 1, column := 1, line_note := q\<rparr>"
        have "pc s + 1 < q"
          using backslash_next_advances la Spliced by blast
        then have "length (buf ?s) - pc ?s < length (buf s) - pc s"
          using inb by simp
        from less.hyps [OF this] eq
        have "\<And>ws'. fst (stream_nextch opt ?s ws') = stream_peekch s0 q" by simp
        then show ?thesis
          using eq inb bs pk Spliced
          by (subst stream_peekch.simps)
             (simp add: stream_nextch_splice [OF inb bs la [unfolded Spliced]])
      qed
    qed
  qed
qed

lemma stream_peek_next: "stream_peek s = (fst (stream_next opt s), s)"
  by (cases "stashed s")
     (simp_all add: stream_peek_def stream_next_def stream_pop_def stream_done_def
        nextch_peekch_gen [of s s])

lemma reader_peek_get: "reader_peek r = (fst (reader_get opt r), r)"
  by (cases r)
     (simp_all add: reader_peek_def reader_get_def stream_peek_next [of _ opt] split: prod.splits)

text \<open>
  C4. In every reader state \<open>reader_peek\<close> returns the character that \<open>reader_get\<close> would
  return next and leaves the reader as it was (so every field of the stream: cursor, line,
  column, line note, stash, last character); the same holds of \<open>__stream_peek__\<close> and
  \<open>__stream_next__\<close> on a stream; and \<open>n\<close> peeks in a row all return that character.
\<close>

theorem peek_returns_what_get_would:
  "reader_peek r = (fst (reader_get opt r), r) \<and>
   stream_peek s = (fst (stream_next opt s), s) \<and>
   reader_peeks n r = (replicate n (fst (reader_get opt r)), r)"
proof -
  have "reader_peeks n r = (replicate n (fst (reader_get opt r)), r)"
    by (induction n) (simp_all add: reader_peek_get [of r opt])
  then show ?thesis
    by (simp add: reader_peek_get [of r opt] stream_peek_next [of s opt])
qed



lemma stream_nextch_result:
  "stream_nextch opt s ws = (ch, s', ws') \<Longrightarrow>
   lastch s' = ch \<and> stashed s' = stashed s \<and> buf s' = buf s \<and>
   (pc s < length (buf s) \<longrightarrow> pc s < pc s') \<and>
   (ch = EOF \<longrightarrow> lastch s = NL \<or> lastch s = EOF)"
proof (induction "length (buf s) - pc s" arbitrary: s ws rule: less_induct)
  case less
  show ?case
  proof (cases "length (buf s) \<le> pc s")
    case True
    then show ?thesis using less.prems
      by (auto simp: stream_nextch_end stream_done_def split: if_splits)
  next
    case False
    then have inb: "pc s < length (buf s)" by simp
    consider (cr) "byte_at (buf s) (pc s) = CR" | (nl) "byte_at (buf s) (pc s) = NL"
      | (bs) "byte_at (buf s) (pc s) = BSLASH"
      | (plain) "byte_at (buf s) (pc s) \<noteq> CR" "byte_at (buf s) (pc s) \<noteq> NL"
                "byte_at (buf s) (pc s) \<noteq> BSLASH"
      by blast
    then show ?thesis
    proof cases
      case cr
      then show ?thesis using less.prems inb by (auto simp: stream_nextch_cr stream_done_def)
    next
      case nl
      then show ?thesis using less.prems inb by (auto simp: stream_nextch_nl stream_done_def)
    next
      case plain
      then show ?thesis using less.prems inb
        by (auto simp: stream_nextch_plain stream_done_def byte_at_def)
    next
      case bs
      obtain la spaced where la: "backslash_next (buf s) (pc s + 1) (pc s + 1) = (la, spaced)"
        by (cases "backslash_next (buf s) (pc s + 1) (pc s + 1)")
      show ?thesis
      proof (cases la)
        case (Unspliced q)
        then show ?thesis
          using less.prems inb bs la
          by (auto simp: stream_nextch_unspliced [OF inb bs la [unfolded Unspliced]]
                stream_done_def split: if_splits)
      next
        case (Spliced q)
        let ?s = "s\<lparr>pc := q, line := line s + 1, column := 1, line_note := q\<rparr>"
        let ?ws = "if spaced \<and> w_backslash_newline_space opt
                   then ws @ [Diagnostic Warning ''backslash and newline separated by space''
                                (line s) (column s)]
                   else ws"
        have q: "pc s + 1 < q"
          using backslash_next_advances la Spliced by blast
        then have m: "length (buf ?s) - pc ?s < length (buf s) - pc s"
          using inb by simp
        have r: "stream_nextch opt ?s ?ws = (ch, s', ws')"
          using less.prems stream_nextch_splice [OF inb bs la [unfolded Spliced], of opt ws]
          by simp
        have le: "q \<le> pc s'"
        proof (cases "q < length (buf s)")
          case True
          then show ?thesis using less.hyps [OF m r] by simp
        next
          case False
          then show ?thesis using r by (auto simp: stream_nextch_end stream_done_def)
        qed
        show ?thesis
          using less.hyps [OF m r] q le by simp
      qed
    qed
  qed
qed

lemma reader_gets_Suc:
  "stashed s = [] \<Longrightarrow> stream_nextch opt s [] = (ch, s', ws) \<Longrightarrow>
   reader_gets opt (Suc n) [s] = ch # reader_gets opt n [s']"
  by (simp add: reader_get_def stream_next_def stream_pop_def)

lemma delivered_until_eof:
  "stashed s = [] \<Longrightarrow>
   \<exists>cs. length cs \<le> length (buf s) - pc s + 1 \<and> EOF \<notin> set cs \<and>
        reader_gets opt (Suc (length cs)) [s] = cs @ [EOF] \<and>
        (if cs = [] then lastch s = NL \<or> lastch s = EOF else last cs = NL)"
proof (induction "length (buf s) - pc s" arbitrary: s rule: less_induct)
  case less
  obtain ch s' ws where nx: "stream_nextch opt s [] = (ch, s', ws)"
    by (cases "stream_nextch opt s []")
  note res = stream_nextch_result [OF nx]
  note st = less.prems
  show ?case
  proof (cases "ch = EOF")
    case True
    then have "reader_gets opt (Suc 0) [s] = [] @ [EOF]"
      using reader_gets_Suc [OF st nx, of 0] by simp
    then show ?thesis
      using res True by (intro exI [of _ "[]"]) simp
  next
    case False
    note ne = False
    show ?thesis
    proof (cases "pc s < length (buf s)")
      case True
      then have "pc s < pc s'" and "buf s' = buf s"
        using res by simp_all
      with True have m: "length (buf s') - pc s' < length (buf s) - pc s"
        by (simp add: diff_less_mono2)
      have st': "stashed s' = []" using res st by simp
      from less.hyps [OF m st'] obtain cs where
        cs: "length cs \<le> length (buf s') - pc s' + 1" "EOF \<notin> set cs"
            "reader_gets opt (Suc (length cs)) [s'] = cs @ [EOF]"
            "if cs = [] then lastch s' = NL \<or> lastch s' = EOF else last cs = NL"
        by blast
      have "reader_gets opt (Suc (length (ch # cs))) [s] = (ch # cs) @ [EOF]"
        using reader_gets_Suc [OF st nx, of "Suc (length cs)"] cs(3) by simp
      moreover have "length (ch # cs) \<le> length (buf s) - pc s + 1"
        using cs(1) m by simp
      moreover have "EOF \<notin> set (ch # cs)" using cs(2) ne by simp
      moreover have "last (ch # cs) = NL"
        using cs(4) res ne by (cases "cs = []") simp_all
      ultimately show ?thesis
        by (intro exI [of _ "ch # cs"]) simp
    next
      case False
      then have e: "length (buf s) \<le> pc s" by simp
      then have ch: "ch = NL" and s': "s' = s\<lparr>lastch := NL\<rparr>"
        using nx ne by (auto simp: stream_nextch_end stream_done_def split: if_splits)
      have "stream_nextch opt s' [] = (EOF, s'\<lparr>lastch := EOF\<rparr>, [])"
        using e s' by (simp add: stream_nextch_end stream_done_def)
      then have "reader_gets opt (Suc 0) [s'] = [EOF]"
        using reader_gets_Suc [of s' opt EOF _ "[]" 0] st s' by simp
      then have "reader_gets opt (Suc (length [NL])) [s] = [NL] @ [EOF]"
        using reader_gets_Suc [OF st nx, of "Suc 0"] ch by simp
      then show ?thesis
        by (intro exI [of _ "[NL]"]) simp
    qed
  qed
qed

lemma delivered_from_start:
  "\<exists>cs. length cs \<le> length t \<and> EOF \<notin> set cs \<and>
        reader_gets opt (length cs + 2) [stream_init name t] = cs @ [NL, EOF]"
proof -
  let ?s = "stream_init name t"
  have "stashed ?s = []" by (simp add: stream_init_def)
  from delivered_until_eof [OF this, of opt] obtain cs where
    cs: "length cs \<le> length (buf ?s) - pc ?s + 1" "EOF \<notin> set cs"
        "reader_gets opt (Suc (length cs)) [?s] = cs @ [EOF]"
        "if cs = [] then lastch ?s = NL \<or> lastch ?s = EOF else last cs = NL"
    by blast
  have ne: "cs \<noteq> []" using cs(4) by (auto simp: stream_init_def)
  then obtain ds where ds: "cs = ds @ [NL]"
    using cs(4) by (metis append_butlast_last_id)
  have "length ds \<le> length t" using cs(1) ds by (simp add: stream_init_def)
  moreover have "EOF \<notin> set ds" using cs(2) ds by simp
  moreover have "reader_gets opt (length ds + 2) [?s] = ds @ [NL, EOF]"
    using cs(3) ds by simp
  ultimately show ?thesis by blast
qed

text \<open>
  C3. A get with the stash empty and the cursor at the end of the buffer returns \<open>EOF\<close> if
  the character delivered before was a newline or \<open>EOF\<close>; otherwise it delivers one
  synthesized newline, and the get after that returns \<open>EOF\<close>. Hence the characters
  delivered from a fresh stream over any text \<open>t\<close> (the empty one too) are some \<open>cs\<close>
  without \<open>EOF\<close>, then a newline, then \<open>EOF\<close>.
\<close>

theorem get_at_end_of_buffer:
  "(stashed s = [] \<and> length (buf s) \<le> pc s \<longrightarrow>
      (lastch s = NL \<or> lastch s = EOF \<longrightarrow>
         stream_next opt s = (EOF, s\<lparr>lastch := EOF\<rparr>, [])) \<and>
      (lastch s \<noteq> NL \<and> lastch s \<noteq> EOF \<longrightarrow>
         stream_next opt s = (NL, s\<lparr>lastch := NL\<rparr>, []) \<and>
         stream_next opt (s\<lparr>lastch := NL\<rparr>) = (EOF, s\<lparr>lastch := EOF\<rparr>, []))) \<and>
   (\<exists>cs. length cs \<le> length t \<and> EOF \<notin> set cs \<and>
         reader_gets opt (length cs + 2) [stream_init name t] = cs @ [NL, EOF])"
  using delivered_from_start [of t opt name]
  by (simp add: stream_next_def stream_pop_def stream_nextch_end stream_done_def)

theorem get_at_end_of_buffer_witness:
  "stashed (stream_init ''<string>'' []) = [] \<and>
   length (buf (stream_init ''<string>'' [])) \<le> pc (stream_init ''<string>'' []) \<and>
   lastch (stream_init ''<string>'' []) \<noteq> NL \<and>
   lastch (stream_init ''<string>'' []) \<noteq> EOF \<and>
   stream_next opt_off (stream_init ''<string>'' []) =
     (NL, (stream_init ''<string>'' [])\<lparr>lastch := NL\<rparr>, []) \<and>
   stream_next opt_off ((stream_init ''<string>'' [])\<lparr>lastch := NL\<rparr>) =
     (EOF, (stream_init ''<string>'' [])\<lparr>lastch := EOF\<rparr>, []) \<and>
   reader_gets opt_off 3 [stream_init ''<string>'' ''a''] = [ord CHR ''a'', NL, EOF]"
proof -
  have "reader_gets opt_off 3 [stream_init ''<string>'' ''a''] = [ord CHR ''a'', NL, EOF]"
    by (simp add: numeral_3_eq_3 reader_get_def stream_next_def stream_init_def stream_pop_def
          stream_nextch.simps byte_at_def stream_done_def)
  then show ?thesis
    using get_at_end_of_buffer [of "stream_init ''<string>'' []" opt_off "''a''" "''<string>''"]
      get_at_end_of_buffer [of "(stream_init ''<string>'' [])\<lparr>lastch := NL\<rparr>" opt_off "''a''" "''<string>''"]
    by (simp add: stream_init_def)
qed

text \<open>
  The line and column rule on the paths other than the backslash that is delivered: a get
  with the stash empty that delivers a character other than a newline, the end of input or
  a backslash leaves the column one more than it was, or at 2 when the get has spliced a
  line first (the line has grown and the column restarted at 1); a get whose fresh byte is a
  carriage return or a line feed delivers a newline, adds one to the line and sets the
  column to 1.
\<close>

lemma stream_nextch_column_rule:
  "stream_nextch opt s ws = (ch, s', ws') \<Longrightarrow> ch \<noteq> NL \<Longrightarrow> ch \<noteq> EOF \<Longrightarrow> ch \<noteq> BSLASH \<Longrightarrow>
   line s \<le> line s' \<and> column s' = (if line s' = line s then column s else 1) + 1"
proof (induction "length (buf s) - pc s" arbitrary: s ws rule: less_induct)
  case less
  note nx = less.prems(1) and ne = less.prems(2-4)
  show ?case
  proof (cases "length (buf s) \<le> pc s")
    case True
    then show ?thesis using nx ne
      by (auto simp: stream_nextch_end stream_done_def split: if_splits)
  next
    case False
    then have inb: "pc s < length (buf s)" by simp
    consider (cr) "byte_at (buf s) (pc s) = CR" | (nl) "byte_at (buf s) (pc s) = NL"
      | (bs) "byte_at (buf s) (pc s) = BSLASH"
      | (plain) "byte_at (buf s) (pc s) \<noteq> CR" "byte_at (buf s) (pc s) \<noteq> NL"
                "byte_at (buf s) (pc s) \<noteq> BSLASH"
      by blast
    then show ?thesis
    proof cases
      case cr
      then show ?thesis using nx ne inb by (auto simp: stream_nextch_cr stream_done_def)
    next
      case nl
      then show ?thesis using nx ne inb by (auto simp: stream_nextch_nl stream_done_def)
    next
      case plain
      then show ?thesis using nx ne inb by (auto simp: stream_nextch_plain stream_done_def)
    next
      case bs
      obtain la spaced where la: "backslash_next (buf s) (pc s + 1) (pc s + 1) = (la, spaced)"
        by (cases "backslash_next (buf s) (pc s + 1) (pc s + 1)")
      show ?thesis
      proof (cases la)
        case (Unspliced q)
        then show ?thesis
          using nx ne
          by (auto simp: stream_nextch_unspliced [OF inb bs la [unfolded Unspliced]]
                stream_done_def split: if_splits)
      next
        case (Spliced q)
        let ?s = "s\<lparr>pc := q, line := line s + 1, column := 1, line_note := q\<rparr>"
        let ?ws = "if spaced \<and> w_backslash_newline_space opt
                   then ws @ [Diagnostic Warning ''backslash and newline separated by space''
                                (line s) (column s)]
                   else ws"
        have "pc s + 1 < q"
          using backslash_next_advances la Spliced by blast
        then have m: "length (buf ?s) - pc ?s < length (buf s) - pc s"
          using inb by simp
        have r: "stream_nextch opt ?s ?ws = (ch, s', ws')"
          using nx stream_nextch_splice [OF inb bs la [unfolded Spliced], of opt ws] by simp
        from less.hyps [OF m r ne] show ?thesis
          by (simp split: if_splits)
      qed
    qed
  qed
qed

lemma column_rule_for_other_bytes:
  "stashed s = [] \<Longrightarrow> stream_next opt s = (ch, s', ws) \<Longrightarrow>
   ch \<noteq> NL \<Longrightarrow> ch \<noteq> EOF \<Longrightarrow> ch \<noteq> BSLASH \<Longrightarrow>
   column s' = (if line s' = line s then column s else 1) + 1"
  using stream_nextch_column_rule [of opt s "[]" ch s' ws]
  by (simp add: stream_next_def stream_pop_def)

lemma line_rule_for_line_ends:
  "stashed s = [] \<Longrightarrow> pc s < length (buf s) \<Longrightarrow> stream_next opt s = (ch, s', ws) \<Longrightarrow>
   byte_at (buf s) (pc s) = CR \<or> byte_at (buf s) (pc s) = NL \<Longrightarrow>
   ch = NL \<and> line s' = line s + 1 \<and> column s' = 1"
  by (auto simp: stream_next_def stream_pop_def stream_nextch_cr stream_nextch_nl stream_done_def)

lemmas stream_eval = stream_next_def stream_init_def stream_pop_def stream_nextch.simps byte_at_def
  Let_def backslash_next.simps ISSPACE_def stream_done_def STREAM_STEP_BY_LINE_def

text \<open>
  C6. The rule fails in \<open>__stream_next__\<close> at a backslash. On the two bytes backslash,
  \<open>a\<close> the get takes the backslash as a fresh byte and delivers it, a character that is not
  a newline, and the column stays 1: the branch for the backslash has no \<open>column++\<close>, which
  the branch for every other delivered byte has. On the single byte backslash (a backslash at
  the end of the file) the get delivers the newline it synthesizes and the line stays 1.
\<close>

theorem backslash_leaves_column_and_line:
  "stashed (stream_init ''<string>'' [CHR 0x5C, CHR ''a'']) = [] \<and>
   pc (stream_init ''<string>'' [CHR 0x5C, CHR ''a''])
     < length (buf (stream_init ''<string>'' [CHR 0x5C, CHR ''a''])) \<and>
   stream_next opt (stream_init ''<string>'' [CHR 0x5C, CHR ''a'']) =
     (BSLASH,
      (stream_init ''<string>'' [CHR 0x5C, CHR ''a''])\<lparr>pc := 1, lastch := BSLASH\<rparr>, []) \<and>
   column ((stream_init ''<string>'' [CHR 0x5C, CHR ''a''])\<lparr>pc := 1, lastch := BSLASH\<rparr>) =
     column (stream_init ''<string>'' [CHR 0x5C, CHR ''a'']) \<and>
   stashed (stream_init ''<string>'' [CHR 0x5C]) = [] \<and>
   pc (stream_init ''<string>'' [CHR 0x5C]) < length (buf (stream_init ''<string>'' [CHR 0x5C])) \<and>
   stream_next opt_on (stream_init ''<string>'' [CHR 0x5C]) =
     (NL, (stream_init ''<string>'' [CHR 0x5C])\<lparr>pc := 1, lastch := NL\<rparr>,
      [Diagnostic Warning ''backslash-newline at end of file'' 1 1]) \<and>
   line ((stream_init ''<string>'' [CHR 0x5C])\<lparr>pc := 1, lastch := NL\<rparr>) =
     line (stream_init ''<string>'' [CHR 0x5C])"
  by (simp add: stream_eval)

section \<open>Properties of the lexer\<close>

lemmas reader_eval = reader_get_def reader_peek_def reader_try_def reader_test_def reader_unget_def
  reader_is_empty_def reader_line_def reader_column_def reader_linenote_def reader_filename_def
  reader_push_def reader_create_def stream_peek_def stream_push_def stream_peekch.simps
  backslash_peek.simps stream_eval

lemmas lexer_eval = lexer_on_def lexer_create_def token_create_def token_init_def token_dup_def
  token_mark_loc_def token_remark_loc_def rd_get_def rd_peek_def rd_try_def rd_test_def
  rd_unget_def ERRORF_def WARNINGF_def make_token_def mark_loc_def remark_loc_def cat_ch_def
  is_unc_def if_try_def unget_then_def skip_white_space_def parse_identifier_def
  parse_number_def parse_character_def parse_string_def parse_encoding_def skip_comment_def
  null_deref_def lexer_scan_def
  ISIDNUM_def ISALPHA_def ISDIGIT_def ISHEX_def ISOCT_def VALID_SIGN_def char_of_def

lemmas loop_eval = white_space_loop.simps identifier_loop.simps number_loop.simps
  character_loop.simps string_loop.simps line_comment_loop.simps

lemmas run_eval = kinds_and_literals_def emitted_def numeral_2_eq_2 numeral_3_eq_3

lemma rd_get_at_end:
  assumes "reader lx = s # ss" "stashed s = []" "length (buf s) \<le> pc s"
  shows "\<exists>c. rd_get lx = (c, lx\<lparr>reader := s\<lparr>lastch := c\<rparr> # ss\<rparr>) \<and> (c = NL \<or> c = EOF)"
  using assms
  by (simp add: rd_get_def reader_get_def stream_next_def stream_pop_def stream_nextch_end
        stream_done_def)

lemma block_comment_loop_at_end:
  assumes r: "block_comment_loop lx = Some y"
  shows "\<not> (\<exists>s ss. reader lx = s # ss \<and> stashed s = [] \<and> length (buf s) \<le> pc s)"
proof (rule block_comment_loop.raw_induct [OF _ r])
  fix loop :: "lexer_s \<Rightarrow> unit result" and lx y
  assume IH: "\<And>x y. loop x = Some y \<Longrightarrow>
      \<not> (\<exists>s ss. reader x = s # ss \<and> stashed s = [] \<and> length (buf s) \<le> pc s)"
    and step: "(if \<not> reader_is_empty (reader lx)
      then case rd_get lx of
           (ch, lx1) \<Rightarrow>
             if ch = ord CHR ''*''
             then case rd_try lx1 (ord CHR ''/'') of
                  (b, lx2) \<Rightarrow>
                    if b then returns () lx2 else loop lx2
             else loop lx1
      else returns () (ERRORF lx ''unknown identifier'')) = Some y"
  show "\<not> (\<exists>s ss. reader lx = s # ss \<and> stashed s = [] \<and> length (buf s) \<le> pc s)"
  proof
    assume "\<exists>s ss. reader lx = s # ss \<and> stashed s = [] \<and> length (buf s) \<le> pc s"
    then obtain s ss where e: "reader lx = s # ss" "stashed s = []" "length (buf s) \<le> pc s"
      by blast
    from rd_get_at_end [OF e] obtain c where
      c: "rd_get lx = (c, lx\<lparr>reader := s\<lparr>lastch := c\<rparr> # ss\<rparr>)" "c = NL \<or> c = EOF"
      by blast
    let ?lx = "lx\<lparr>reader := s\<lparr>lastch := c\<rparr> # ss\<rparr>"
    have "loop ?lx = Some y"
      using step e c by (auto simp: reader_is_empty_def)
    from IH [OF this] show False
      using e by simp
  qed
qed

lemma block_comment_loop_hangs:
  "reader lx \<noteq> [] \<Longrightarrow> stashed (hd (reader lx)) = [] \<Longrightarrow>
   length (buf (hd (reader lx))) \<le> pc (hd (reader lx)) \<Longrightarrow>
   block_comment_loop lx = None"
  using block_comment_loop_at_end [of lx]
  by (cases "block_comment_loop lx"; cases "reader lx") auto

text \<open>
  C1. On the input \<open>!=\<close> the scanner consumes both characters and returns a token of kind
  \<open>TOKEN_EXCLAIM\<close>; on \<open>!a\<close> it consumes the \<open>!\<close> alone and returns \<open>TOKEN_EXCLAIMEQUAL\<close>:
  the two kinds are swapped with respect to the spellings the dictionary gives them.
\<close>

theorem exclaim_kinds_swapped:
  "kinds_and_literals (scans 2 (lexer_on opt ''!='')) =
     Some [(TOKEN_EXCLAIM, []), (TOKEN_NEW_LINE, [])] \<and>
   kinds_and_literals (scans 2 (lexer_on opt ''!a'')) =
     Some [(TOKEN_EXCLAIMEQUAL, []), (TOKEN_IDENTIFIER, ''a'')] \<and>
   token_original TOKEN_EXCLAIM = Some ''!'' \<and>
   token_original TOKEN_EXCLAIMEQUAL = Some ''!=''"
  by (simp add: run_eval lexer_eval reader_eval loop_eval token_original_def
        token_dictionary_def)

text \<open>
  C2. On the input \<open>/*\<close>, a block comment that is never closed, \<open>lexer_scan\<close> does not
  return: the loop of \<open>__lexer_skip_comment__\<close> runs while the reader has a stream, and the
  stream stays on the reader when its text is used up. The same on \<open>/*x\<close>.
\<close>

theorem unterminated_block_comment_hangs:
  "lexer_scan (lexer_on opt ''/*'') = None \<and> lexer_scan (lexer_on opt ''/*x'') = None"
proof
  show "lexer_scan (lexer_on opt ''/*'') = None"
    by (simp add: lexer_eval reader_eval loop_eval block_comment_loop_hangs)
  show "lexer_scan (lexer_on opt ''/*x'') = None"
    apply (simp add: lexer_eval reader_eval loop_eval)
    apply (subst block_comment_loop.simps)
    apply (simp add: lexer_eval reader_eval block_comment_loop_hangs)
    done
qed

lemma scans_add:
  "scans (m + n) lx =
     bind_r (scans m lx) (\<lambda>ts lx1. bind_r (scans n lx1) (\<lambda>ts' lx2. returns (ts @ ts') lx2))"
proof (induction m arbitrary: lx)
  case 0
  show ?case
    by (cases "scans n lx" rule: option.exhaust)
       (auto simp: bind_r_def split: sum.splits)
next
  case (Suc m)
  show ?case
    by (cases "lexer_scan lx")
       (auto simp: Suc bind_r_def split: sum.splits option.splits)
qed

lemma scans_at_end:
  assumes "lexer_scan lx = returns t lx"
  shows "scans n lx = returns (replicate n t) lx"
  by (induction n) (simp_all add: assms)

text \<open>
  C5, as the code has it. On the input \<open>i++\<close> the calls of \<open>lexer_scan\<close> return an
  identifier with literal \<open>i\<close>, \<open>TOKEN_PLUSPLUS\<close>, a \<open>TOKEN_NEW_LINE\<close> for the newline that
  the reader synthesizes at the end of the text, and \<open>TOKEN_END\<close>; every further call
  returns \<open>TOKEN_END\<close> again.
\<close>

theorem scan_i_plus_plus:
  "kinds_and_literals (scans (4 + n) (lexer_on opt ''i++'')) =
     Some ([(TOKEN_IDENTIFIER, ''i''), (TOKEN_PLUSPLUS, []), (TOKEN_NEW_LINE, []),
            (TOKEN_END, [])] @ replicate n (TOKEN_END, []))"
proof -
  have "\<exists>ts lx t. scans 4 (lexer_on opt ''i++'') = returns ts lx \<and>
          map (\<lambda>t. (type t, cs t)) ts =
            [(TOKEN_IDENTIFIER, ''i''), (TOKEN_PLUSPLUS, []), (TOKEN_NEW_LINE, []),
             (TOKEN_END, [])] \<and>
          lexer_scan lx = returns t lx \<and> type t = TOKEN_END \<and> cs t = []"
    by (simp add: eval_nat_numeral lexer_eval reader_eval loop_eval)
  then obtain ts lx t where
    r: "scans 4 (lexer_on opt ''i++'') = returns ts lx"
       "map (\<lambda>t. (type t, cs t)) ts =
            [(TOKEN_IDENTIFIER, ''i''), (TOKEN_PLUSPLUS, []), (TOKEN_NEW_LINE, []),
             (TOKEN_END, [])]"
       "lexer_scan lx = returns t lx" "type t = TOKEN_END" "cs t = []"
    by (elim exE conjE)
  show ?thesis
    using r(2,4,5)
    by (simp add: scans_add r(1) scans_at_end [OF r(3)] kinds_and_literals_def)
qed

text \<open>C5 as stated fails: the third token scanned from \<open>i++\<close> is not \<open>TOKEN_END\<close>.\<close>

theorem scan_i_plus_plus_third_is_not_end:
  "kinds_and_literals (scans 3 (lexer_on opt_off ''i++'')) \<noteq>
     Some [(TOKEN_IDENTIFIER, ''i''), (TOKEN_PLUSPLUS, []), (TOKEN_END, [])]"
  by (simp add: run_eval lexer_eval reader_eval loop_eval)

text \<open>
  C7. The only row of the dictionary for \<open>TOKEN_L_PAREN\<close> spells it \<open>)\<close> and the only row
  for \<open>TOKEN_R_PAREN\<close> spells it \<open>(\<close>, so these are the original spellings that a lookup
  gives; the scanner, though, returns \<open>TOKEN_L_PAREN\<close> for \<open>(\<close> and \<open>TOKEN_R_PAREN\<close>
  for \<open>)\<close>.
\<close>

theorem paren_spellings_swapped:
  "filter (\<lambda>row. fst row = TOKEN_L_PAREN) token_dictionary =
     [(TOKEN_L_PAREN, ''TOKEN_L_PAREN'', '')'')] \<and>
   filter (\<lambda>row. fst row = TOKEN_R_PAREN) token_dictionary =
     [(TOKEN_R_PAREN, ''TOKEN_R_PAREN'', ''('')] \<and>
   token_original TOKEN_L_PAREN = Some '')'' \<and>
   token_original TOKEN_R_PAREN = Some ''('' \<and>
   kinds_and_literals (scans 2 (lexer_on opt ''()'')) =
     Some [(TOKEN_L_PAREN, []), (TOKEN_R_PAREN, [])]"
  by (simp add: run_eval lexer_eval reader_eval loop_eval token_original_def
        token_dictionary_def)

text \<open>
  C8. On the input of one apostrophe the first call of \<open>lexer_scan\<close> returns a
  \<open>TOKEN_CONSTANT_CHAR\<close> with an empty literal and emits two diagnostics, one for the
  missing terminating quote and one for the empty character constant; the next call returns
  \<open>TOKEN_END\<close> and emits nothing more.
\<close>

theorem scan_lone_quote:
  "kinds_and_literals (scans 1 (lexer_on opt [CHR 0x27])) = Some [(TOKEN_CONSTANT_CHAR, [])] \<and>
   emitted (scans 1 (lexer_on opt [CHR 0x27])) =
     Some [Diagnostic Error (''missing terminating '' @ [CHR 0x27] @ '' character'') 1 1,
           Diagnostic Error ''empty character constant'' 1 1] \<and>
   kinds_and_literals (scans 2 (lexer_on opt [CHR 0x27])) =
     Some [(TOKEN_CONSTANT_CHAR, []), (TOKEN_END, [])] \<and>
   emitted (scans 2 (lexer_on opt [CHR 0x27])) = emitted (scans 1 (lexer_on opt [CHR 0x27]))"
  by (simp add: run_eval lexer_eval reader_eval loop_eval)

lemma reader_get_consumes:
  assumes "reader_get opt r = (c, r', ws)" "c \<noteq> NL" "c \<noteq> EOF"
  shows "remaining r' < remaining r"
proof (cases r)
  case Nil
  then show ?thesis using assms by (simp add: reader_get_def)
next
  case (Cons s ss)
  show ?thesis
  proof (cases "stashed s")
    case (Cons x xs)
    then show ?thesis
      using assms \<open>r = s # ss\<close>
      by (auto simp: reader_get_def stream_next_def stream_pop_def stream_done_def remaining_def)
  next
    case Nil
    obtain s' where nx: "stream_nextch opt s [] = (c, s', ws)" and r': "r' = s' # ss"
      using assms(1) \<open>r = s # ss\<close> Nil
      by (auto simp: reader_get_def stream_next_def stream_pop_def split: prod.splits)
    note res = stream_nextch_result [OF nx]
    have inb: "pc s < length (buf s)"
    proof (rule ccontr)
      assume "\<not> pc s < length (buf s)"
      then have "length (buf s) \<le> pc s" by simp
      then show False
        using nx assms(2,3) by (auto simp: stream_nextch_end stream_done_def split: if_splits)
    qed
    then have "pc s < pc s'" "buf s' = buf s" "stashed s' = []"
      using res Nil by simp_all
    then show ?thesis
      using inb r' \<open>r = s # ss\<close> Nil by (simp add: remaining_def diff_less_mono2)
  qed
qed

lemma number_test_is_pp_continue:
  "(ISIDNUM ch \<or> ch = ord CHR ''.'' \<or> VALID_SIGN ch prev \<or> ch = SQUOTE) = pp_continue prev ch"
  by (auto simp: ISIDNUM_def VALID_SIGN_def pp_continue_def)

lemma number_loop_unfold:
  "number_loop lx prev =
     (case rd_peek lx of
        (ch, lx1) \<Rightarrow>
          if \<not> pp_continue prev ch then Some lx1
          else (case rd_get (cat_ch lx1 ch) of (_, lx2) \<Rightarrow> number_loop lx2 ch))"
  by (subst number_loop.simps) (simp only: number_test_is_pp_continue)

lemma pp_continue_not_end: "pp_continue prev ch \<Longrightarrow> ch \<noteq> NL \<and> ch \<noteq> EOF"
  by (auto simp: pp_continue_def ISALPHA_def ISDIGIT_def)

lemma number_loop_takes_maximal_prefix:
  "\<exists>n lx'. number_loop lx prev = Some lx' \<and>
     reader lx' = reader_skip (option lx) n (reader lx) \<and>
     cs (tok lx') = cs (tok lx) @ map char_of (reader_gets (option lx) n (reader lx)) \<and>
     pp_accepted prev (reader_gets (option lx) n (reader lx)) \<and>
     \<not> pp_accepted prev (reader_gets (option lx) (Suc n) (reader lx))"
proof (induction "remaining (reader lx)" arbitrary: lx prev rule: less_induct)
  case less
  obtain c r' ws where g: "reader_get (option lx) (reader lx) = (c, r', ws)"
    by (cases "reader_get (option lx) (reader lx)")
  have pk: "rd_peek lx = (c, lx)"
    using reader_peek_get [of "reader lx" "option lx"] g by (simp add: rd_peek_def)
  show ?case
  proof (cases "pp_continue prev c")
    case False
    then have "number_loop lx prev = Some lx"
      by (subst number_loop_unfold) (simp add: pk)
    then show ?thesis
      using False g by (intro exI [of _ 0] exI [of _ lx]) simp
  next
    case True
    let ?lx2 = "snd (rd_get (cat_ch lx c))"
    have lx2: "reader ?lx2 = r'" "option ?lx2 = option lx"
      "cs (tok ?lx2) = cs (tok lx) @ [char_of c]"
      using g by (simp_all add: rd_get_def cat_ch_def)
    have step: "number_loop lx prev = number_loop ?lx2 c"
      using True
      by (subst number_loop_unfold) (simp add: pk split: prod.splits)
    have "remaining (reader ?lx2) < remaining (reader lx)"
      using reader_get_consumes [OF g] pp_continue_not_end [OF True] lx2 by simp
    from less.hyps [OF this, of c] obtain n lx' where
      n: "number_loop ?lx2 c = Some lx'"
         "reader lx' = reader_skip (option lx) n r'"
         "cs (tok lx') = (cs (tok lx) @ [char_of c]) @ map char_of (reader_gets (option lx) n r')"
         "pp_accepted c (reader_gets (option lx) n r')"
         "\<not> pp_accepted c (reader_gets (option lx) (Suc n) r')"
      unfolding lx2 by blast
    show ?thesis
      using n step True g
      by (intro exI [of _ "Suc n"] exI [of _ lx']) simp
  qed
qed

text \<open>
  C9, as the code has it. \<open>__lexer_parse_number__\<close> always returns, with a \<open>TOKEN_NUMBER\<close>
  whose literal is what the token in progress held, the first character \<open>ch\<close>, and then
  the first \<open>n\<close> characters of the logical character stream, where these \<open>n\<close> characters
  all go on the pp-number (letter, digit, underscore, period, single quote, or a sign right
  after \<open>e\<close>, \<open>E\<close>, \<open>p\<close>, \<open>P\<close>) and the one after them does not; the reader is left
  exactly \<open>n\<close> gets further.
\<close>

theorem pp_number_literal:
  "\<exists>n t lx'. parse_number lx ch = returns t lx' \<and> type t = TOKEN_NUMBER \<and>
     cs t = cs (tok lx) @ char_of ch # map char_of (reader_gets (option lx) n (reader lx)) \<and>
     pp_accepted (- 1) (reader_gets (option lx) n (reader lx)) \<and>
     \<not> pp_accepted (- 1) (reader_gets (option lx) (Suc n) (reader lx)) \<and>
     reader lx' = reader_skip (option lx) n (reader lx)"
proof -
  from number_loop_takes_maximal_prefix [of "cat_ch lx ch" "- 1"] obtain n lx1 where
    n: "number_loop (cat_ch lx ch) (- 1) = Some lx1"
       "reader lx1 = reader_skip (option lx) n (reader lx)"
       "cs (tok lx1) = (cs (tok lx) @ [char_of ch]) @ map char_of (reader_gets (option lx) n (reader lx))"
       "pp_accepted (- 1) (reader_gets (option lx) n (reader lx))"
       "\<not> pp_accepted (- 1) (reader_gets (option lx) (Suc n) (reader lx))"
    by (auto simp: cat_ch_def)
  have "parse_number lx ch = Some (Inr (make_token lx1 TOKEN_NUMBER))"
    using n(1) by (simp add: parse_number_def)
  then show ?thesis
    using n
    by (intro exI [of _ n] exI [of _ "fst (make_token lx1 TOKEN_NUMBER)"]
          exI [of _ "snd (make_token lx1 TOKEN_NUMBER)"])
       (simp add: make_token_def token_dup_def token_init_def)
qed

theorem pp_number_literal_witness:
  "kinds_and_literals (scans 2 (lexer_on opt_off ''.5e+2;'')) =
     Some [(TOKEN_NUMBER, ''.5e+2''), (TOKEN_SEMI, [])] \<and>
   (\<exists>n t lx'.
      parse_number (lexer_on opt_off ''5e+2;'') (ord CHR ''.'') = returns t lx' \<and>
      type t = TOKEN_NUMBER \<and>
      cs t = cs (tok (lexer_on opt_off ''5e+2;'')) @ char_of (ord CHR ''.'') #
               map char_of (reader_gets (option (lexer_on opt_off ''5e+2;'')) n
                              (reader (lexer_on opt_off ''5e+2;''))) \<and>
      pp_accepted (- 1) (reader_gets (option (lexer_on opt_off ''5e+2;'')) n
                           (reader (lexer_on opt_off ''5e+2;''))) \<and>
      \<not> pp_accepted (- 1) (reader_gets (option (lexer_on opt_off ''5e+2;'')) (Suc n)
                             (reader (lexer_on opt_off ''5e+2;''))) \<and>
      reader lx' = reader_skip (option (lexer_on opt_off ''5e+2;'')) n
                     (reader (lexer_on opt_off ''5e+2;'')))"
proof (rule conjI)
  show "kinds_and_literals (scans 2 (lexer_on opt_off ''.5e+2;'')) =
     Some [(TOKEN_NUMBER, ''.5e+2''), (TOKEN_SEMI, [])]"
    by (simp add: run_eval lexer_eval reader_eval loop_eval)
qed (rule pp_number_literal)

text \<open>
  C9 as stated fails: \<open>$\<close> is an identifier-continue character, but on the input \<open>1$\<close> the
  number token has the literal \<open>1\<close>, and the \<open>$\<close> is left for the next token.
\<close>

theorem pp_number_stops_at_dollar:
  "kinds_and_literals (scans 1 (lexer_on opt_off ''1$'')) \<noteq> Some [(TOKEN_NUMBER, ''1$'')] \<and>
   kinds_and_literals (scans 2 (lexer_on opt_off ''1$'')) =
     Some [(TOKEN_NUMBER, ''1''), (TOKEN_IDENTIFIER, ''$'')]"
  by (simp add: run_eval lexer_eval reader_eval loop_eval)





end
